theory Spec2Isabelle
  imports Main
begin

section \<open>The template engine of Chatu.py\<close>

text \<open>
  This theory embeds the template engine of \<^verbatim>\<open>src/Chatu.py\<close> (lines 1570 to 1992):
  the \<^verbatim>\<open>Lexer\<close>, the three tokenizer rules of the \<^verbatim>\<open>Parser\<close>, the grouping
  generator \<^verbatim>\<open>parse_iter\<close>, the \<^verbatim>\<open>BlockBuilder\<close> that writes the lines of the render
  routine, and the caches of the \<^verbatim>\<open>Engine\<close>.

  Strings are lists of characters. The regular expressions of the source are written
  out as functions on strings; the character classes \<^verbatim>\<open>\w\<close> and \<^verbatim>\<open>\s\<close> and the
  whitespace of \<^verbatim>\<open>str.strip\<close> are the ASCII classes (Python 2 without
  \<^verbatim>\<open>re.UNICODE\<close>; Python 3 agrees on ASCII text). An exception of the source is a value
  of type \<open>error\<close>, and a function that may raise returns \<open>error + 'a\<close>.
\<close>

subsection \<open>Characters and string primitives of Python\<close>

abbreviation NL :: char where "NL \<equiv> CHR 0x0A"
abbreviation CR :: char where "CR \<equiv> CHR 0x0D"
abbreviation BSL :: char where "BSL \<equiv> CHR 0x5C"
abbreviation SQ :: char where "SQ \<equiv> CHR 0x27"
abbreviation DQ :: char where "DQ \<equiv> CHR 0x22"

text \<open>The blank of the patterns \<^verbatim>\<open>' *'\<close>.\<close>

definition is_blank :: "char \<Rightarrow> bool" where
  "is_blank c = (c = CHR '' '')"

text \<open>\<^verbatim>\<open>\s\<close> and the characters \<^verbatim>\<open>str.strip()\<close> removes: space, tab, newline, vertical
  tab, form feed, carriage return.\<close>

definition py_space :: "char \<Rightarrow> bool" where
  "py_space c = (c = CHR '' '' \<or> c = CHR 0x09 \<or> c = NL \<or> c = CHR 0x0B \<or> c = CHR 0x0C \<or> c = CR)"

text \<open>\<^verbatim>\<open>\w\<close>: letters, digits and the underscore.\<close>

definition wordchar :: "char \<Rightarrow> bool" where
  "wordchar c = (let n = of_char c :: nat in
     (97 \<le> n \<and> n \<le> 122) \<or> (65 \<le> n \<and> n \<le> 90) \<or> (48 \<le> n \<and> n \<le> 57) \<or> n = 95)"

definition lstrip :: "string \<Rightarrow> string" where
  "lstrip s = dropWhile py_space s"

definition rstrip :: "string \<Rightarrow> string" where
  "rstrip s = rev (dropWhile py_space (rev s))"

definition strip :: "string \<Rightarrow> string" where
  "strip s = rstrip (lstrip s)"

text \<open>\<^verbatim>\<open>source.replace('\r\n', '\n')\<close>\<close>

fun replace_crlf :: "string \<Rightarrow> string" where
  "replace_crlf (c # d # cs) =
     (if c = CR \<and> d = NL then NL # replace_crlf cs else c # replace_crlf (d # cs))"
| "replace_crlf cs = cs"

text \<open>\<^verbatim>\<open>s.count('\n')\<close>\<close>

definition count_nl :: "string \<Rightarrow> nat" where
  "count_nl s = length (filter (\<lambda>c. c = NL) s)"

text \<open>\<^verbatim>\<open>line_join_sub('', s)\<close>: the pattern is the line-join marker (a backslash)
  followed by a newline; every occurrence is removed, from left to right.\<close>

fun line_join_sub :: "string \<Rightarrow> string" where
  "line_join_sub (c # d # cs) =
     (if c = BSL \<and> d = NL then line_join_sub cs else c # line_join_sub (d # cs))"
| "line_join_sub cs = cs"

text \<open>\<^verbatim>\<open>s.split('|')\<close>: the pieces between the separators; a string with no separator
  is one piece, also when it is empty.\<close>

fun split_on :: "char \<Rightarrow> string \<Rightarrow> string list" where
  "split_on sep [] = [[]]"
| "split_on sep (c # cs) =
     (if c = sep then [] # split_on sep cs
      else (case split_on sep cs of p # ps \<Rightarrow> (c # p) # ps | [] \<Rightarrow> [[c]]))"

text \<open>\<^verbatim>\<open>sep.join(parts)\<close>\<close>

fun join :: "string \<Rightarrow> string list \<Rightarrow> string" where
  "join sep [] = []"
| "join sep [p] = p"
| "join sep (p # q # ps) = p @ sep @ join sep (q # ps)"

subsection \<open>Tokens and errors\<close>

text \<open>The token kinds are the strings \<^verbatim>\<open>'markup'\<close>, \<^verbatim>\<open>'var'\<close>, \<^verbatim>\<open>'include'\<close>, ... of the
  source; \<open>Hash\<close> is \<^verbatim>\<open>'#'\<close>. \<open>Out\<close> and \<open>Render\<close> are the kinds of the nodes that
  \<^verbatim>\<open>parse_iter\<close> and \<^verbatim>\<open>compile_template\<close> make.\<close>

datatype kind =
  Markup | Var | Include | Require | Import | From | Statement | Compound | Continue
  | End | Extends | Def | Hash | Out | Render

text \<open>The value of a token: a string, the list of names of a \<^verbatim>\<open>require\<close>, or \<^verbatim>\<open>None\<close>
  (the \<^verbatim>\<open>end\<close> that \<^verbatim>\<open>end_continue\<close> inserts).\<close>

datatype tvalue = TStr string | TList "string list" | TNone

type_synonym token = "int \<times> kind \<times> tvalue"

text \<open>The exceptions the engine can raise. \<open>LexerMismatch\<close> is
  \<^verbatim>\<open>SyntaxError('Lexer pattern mismatch.')\<close>, \<open>MissingEnd n\<close> is
  \<^verbatim>\<open>SyntaxError('Missing "end" statement at line %d.' % n)\<close>. \<open>PySyntaxError\<close> is the
  \<^verbatim>\<open>SyntaxError\<close> of the built-in \<^verbatim>\<open>compile\<close>, \<open>RaisedSyntaxError\<close> one that a
  routine raises. The last two are not exceptions: \<open>Unmodelled\<close> says that the model
  of the host language below does not cover the code, \<open>OutOfFuel\<close> that the run was
  cut off.\<close>

datatype error =
  LexerMismatch | MissingEnd int | AssertionError | AttributeError | IndexError
  | ValueError | TypeError | KeyError string | NotFound string | NameError string
  | PySyntaxError | RaisedSyntaxError string | Unmodelled | OutOfFuel

subsection \<open>Lexer.tokenize\<close>

text \<open>A tokenizer rule takes the source and a position. It returns \<^verbatim>\<open>None\<close> or the
  triple \<^verbatim>\<open>(npos, token, value)\<close>, or raises.\<close>

type_synonym rule = "string \<Rightarrow> nat \<Rightarrow> error + (nat \<times> kind \<times> tvalue) option"

text \<open>The \<^verbatim>\<open>for tokenizer in self.rules\<close> loop with its \<^verbatim>\<open>else\<close> branch.\<close>

fun first_rule :: "rule list \<Rightarrow> string \<Rightarrow> nat \<Rightarrow> error + (nat \<times> kind \<times> tvalue)" where
  "first_rule [] source pos = Inl LexerMismatch"
| "first_rule (r # rs) source pos =
     (case r source pos of
        Inl e \<Rightarrow> Inl e
      | Inr None \<Rightarrow> first_rule rs source pos
      | Inr (Some rv) \<Rightarrow> Inr rv)"

text \<open>\<^verbatim>\<open>source[pos:npos]\<close>\<close>

definition slice :: "string \<Rightarrow> nat \<Rightarrow> nat \<Rightarrow> string" where
  "slice s i j = take (j - i) (drop i s)"

text \<open>The \<^verbatim>\<open>while pos < end\<close> loop; \<^verbatim>\<open>assert npos > pos\<close> is the branch to
  \<open>AssertionError\<close>.\<close>

function tokenize_loop ::
  "rule list \<Rightarrow> string \<Rightarrow> nat \<Rightarrow> int \<Rightarrow> token list \<Rightarrow> error + token list" where
  "tokenize_loop rules source pos lineno tokens =
     (if pos < length source then
        (case first_rule rules source pos of
           Inl e \<Rightarrow> Inl e
         | Inr (npos, token, v) \<Rightarrow>
             if \<not> npos > pos then Inl AssertionError
             else tokenize_loop rules source npos
                    (lineno + int (count_nl (slice source pos npos)))
                    (tokens @ [(lineno, token, v)]))
      else Inr tokens)"
  by pat_completeness auto
termination
  by (relation "measure (\<lambda>(rules, source, pos, lineno, tokens). length source - pos)") auto

declare tokenize_loop.simps [simp del]

definition tokenize :: "rule list \<Rightarrow> string \<Rightarrow> error + token list" where
  "tokenize rules source = tokenize_loop rules (replace_crlf source) 0 1 []"

subsection \<open>The tokenizer rules of the Parser\<close>

text \<open>\<^verbatim>\<open>TOKENS\<close>: the keyword table. A keyword that is not in the table gives
  \<^verbatim>\<open>'statement'\<close>.\<close>

definition TOKENS :: "(string \<times> kind) list" where
  "TOKENS =
     [(''endfor'', End), (''endif'', End), (''endwhile'', End), (''endwith'', End),
      (''endtry'', End), (''endclass'', End), (''enddef'', End),
      (''for'', Compound), (''if'', Compound), (''while'', Compound), (''with'', Compound),
      (''try'', Compound), (''class'', Compound),
      (''else'', Continue), (''elif'', Continue), (''except'', Continue),
      (''finally'', Continue),
      (''extends'', Extends), (''require'', Require), (''#'', Hash), (''include'', Include),
      (''import'', Import), (''from'', From), (''def'', Def), (''end'', End)]"

definition TOKENS_get :: "string \<Rightarrow> kind" where
  "TOKENS_get k = (case map_of TOKENS k of Some t \<Rightarrow> t | None \<Rightarrow> Statement)"

definition COMPOUND_TOKENS :: "kind set" where
  "COMPOUND_TOKENS = {Extends, Def, Compound}"

definition OUT_TOKENS :: "kind set" where
  "OUT_TOKENS = {Markup, Var, Include}"

text \<open>The tail \<^verbatim>\<open>(.*?)(?<!\\)(?:\n|$)\<close> of \<^verbatim>\<open>stmt_match\<close> (with \<^verbatim>\<open>re.S\<close>): the
  shortest text that ends before a newline not preceded by the line-join marker, or at
  the end of the source if the last character is not the marker. The flag says whether
  the character before is the marker. The result is the text and what follows the
  match.\<close>

fun stmt_tail :: "bool \<Rightarrow> string \<Rightarrow> (string \<times> string) option" where
  "stmt_tail esc [] = (if esc then None else Some ([], []))"
| "stmt_tail esc (c # cs) =
     (if c = NL \<and> \<not> esc then Some ([], cs)
      else (case stmt_tail (c = BSL) cs of
              None \<Rightarrow> None
            | Some (g, rest) \<Rightarrow> Some (c # g, rest)))"

text \<open>Group 1 of \<^verbatim>\<open>stmt_match\<close>, \<^verbatim>\<open>(#|\w+ ?)?\<close>: a hash, or a word with one blank
  after it if there is one, or nothing.\<close>

definition stmt_keyword :: "string \<Rightarrow> string" where
  "stmt_keyword s =
     (case s of
        [] \<Rightarrow> []
      | c # cs \<Rightarrow>
          if c = CHR ''#'' then [c]
          else (let w = takeWhile wordchar s in
                if w = [] then []
                else (case dropWhile wordchar s of
                        [] \<Rightarrow> w
                      | d # ds \<Rightarrow> if d = CHR '' '' then w @ [d] else w)))"

text \<open>\<^verbatim>\<open>stmt_match(source, pos)\<close> for the pattern
  \<^verbatim>\<open> *%(?!%) *(#|\w+ ?)? *(.*?)(?<!\\)(?:\n|$)\<close>: the end of the match and the groups
  1 and 2 (an absent group 1 is the empty string, as \<^verbatim>\<open>m.group(1) or ''\<close> makes it).
  Every greedy part is followed by a part that cannot match what it gave back, so the
  match is the greedy one.\<close>

definition stmt_match :: "string \<Rightarrow> nat \<Rightarrow> (nat \<times> string \<times> string) option" where
  "stmt_match source pos =
     (case dropWhile is_blank (drop pos source) of
        [] \<Rightarrow> None
      | c # s2 \<Rightarrow>
          if c \<noteq> CHR ''%'' then None
          else if (case s2 of [] \<Rightarrow> False | d # ds \<Rightarrow> d = CHR ''%'') then None
          else (let s3 = dropWhile is_blank s2;
                    g1 = stmt_keyword s3;
                    s4 = dropWhile is_blank (drop (length g1) s3)
                in case stmt_tail False s4 of
                     None \<Rightarrow> None
                   | Some (g2, rest) \<Rightarrow> Some (length source - length rest, g1, g2)))"

text \<open>\<^verbatim>\<open>re.search(r'\(\s*(.*?)\s*\)', stmt)\<close>: \<open>paren_close\<close> is \<^verbatim>\<open>\s*\)\<close> at the
  front of a string, \<open>paren_group\<close> the lazy group (a dot does not match a newline
  here), \<open>paren_search\<close> the search for the leftmost match; the result is group 1.\<close>

definition paren_close :: "string \<Rightarrow> bool" where
  "paren_close s = (case dropWhile py_space s of [] \<Rightarrow> False | c # cs \<Rightarrow> c = CHR '')'')"

fun paren_group :: "string \<Rightarrow> string option" where
  "paren_group [] = None"
| "paren_group (c # cs) =
     (if paren_close (c # cs) then Some []
      else if c = NL then None
      else map_option ((#) c) (paren_group cs))"

fun paren_search :: "string \<Rightarrow> string option" where
  "paren_search [] = None"
| "paren_search (c # cs) =
     (if c = CHR ''('' then
        (case paren_group (dropWhile py_space cs) of
           Some g \<Rightarrow> Some g
         | None \<Rightarrow> paren_search cs)
      else paren_search cs)"

text \<open>\<^verbatim>\<open>re.findall(r'([^\s,]+)[\s,]*', stmt)\<close>: the runs of characters that are neither
  whitespace nor a comma. The first argument is the run read so far.\<close>

fun findall_names :: "string \<Rightarrow> string \<Rightarrow> string list" where
  "findall_names cur [] = (if cur = [] then [] else [cur])"
| "findall_names cur (c # cs) =
     (if py_space c \<or> c = CHR '',''
      then (if cur = [] then findall_names [] cs else cur # findall_names [] cs)
      else findall_names (cur @ [c]) cs)"

text \<open>\<^verbatim>\<open>stmt_token\<close>. A \<^verbatim>\<open>require\<close>, \<^verbatim>\<open>include\<close> or \<^verbatim>\<open>extends\<close> with no
  parenthesised argument makes \<^verbatim>\<open>re.search\<close> return \<^verbatim>\<open>None\<close>, and \<^verbatim>\<open>.group\<close>
  raises \<^verbatim>\<open>AttributeError\<close>.\<close>

definition stmt_token :: rule where
  "stmt_token source pos =
     (case stmt_match source pos of
        None \<Rightarrow> Inr None
      | Some (npos, g1, g2) \<Rightarrow>
          if pos > 0 \<and> source ! (pos - 1) \<noteq> NL then Inr None
          else (let stmt = g1 @ line_join_sub g2;
                    token = TOKENS_get (rstrip g1)
                in if token = Require \<or> token = Include \<or> token = Extends then
                     (case paren_search stmt of
                        None \<Rightarrow> Inl AttributeError
                      | Some arg \<Rightarrow>
                          if token = Require
                          then Inr (Some (npos, token, TList (findall_names [] arg)))
                          else Inr (Some (npos, token, TStr arg)))
                   else Inr (Some (npos, token, TStr stmt))))"

text \<open>\<^verbatim>\<open>var_match\<close> for \<^verbatim>\<open>\{\{\s*(.*?)\s*\}\}\<close> (with \<^verbatim>\<open>re.S\<close>): \<open>var_close\<close> is
  \<^verbatim>\<open>\s*\}\}\<close> at the front of a string and gives what follows it, \<open>var_group\<close> is the
  lazy group with what follows the match.\<close>

definition var_close :: "string \<Rightarrow> string option" where
  "var_close s =
     (case dropWhile py_space s of
        c # d # rest \<Rightarrow> if c = CHR ''}'' \<and> d = CHR ''}'' then Some rest else None
      | _ \<Rightarrow> None)"

fun var_group :: "string \<Rightarrow> (string \<times> string) option" where
  "var_group [] = None"
| "var_group (c # cs) =
     (case var_close (c # cs) of
        Some rest \<Rightarrow> Some ([], rest)
      | None \<Rightarrow>
          (case var_group cs of
             None \<Rightarrow> None
           | Some (g, rest) \<Rightarrow> Some (c # g, rest)))"

definition var_match :: "string \<Rightarrow> nat \<Rightarrow> (nat \<times> string) option" where
  "var_match source pos =
     (case drop pos source of
        c # d # r \<Rightarrow>
          if c = CHR ''{'' \<and> d = CHR ''{'' then
            (case var_group (dropWhile py_space r) of
               None \<Rightarrow> None
             | Some (g, rest) \<Rightarrow> Some (length source - length rest, g))
          else None
      | _ \<Rightarrow> None)"

definition var_token :: rule where
  "var_token source pos =
     (case var_match source pos of
        None \<Rightarrow> Inr None
      | Some (npos, g) \<Rightarrow> Inr (Some (npos, Var, TStr (line_join_sub g))))"

text \<open>\<^verbatim>\<open>markup_match\<close> for \<^verbatim>\<open>.*?(?:(?=\{\{)|\n(?= *%[^%]))|.+\<close> (with \<^verbatim>\<open>re.S\<close>).
  \<open>stmt_ahead\<close> is the lookahead \<^verbatim>\<open> *%[^%]\<close>; \<open>markup_scan\<close> is the length of the
  first alternative's match, if it has one; the second alternative takes the rest of the
  source, which must not be empty.\<close>

definition stmt_ahead :: "string \<Rightarrow> bool" where
  "stmt_ahead s =
     (case dropWhile is_blank s of
        c # d # rest \<Rightarrow> c = CHR ''%'' \<and> d \<noteq> CHR ''%''
      | _ \<Rightarrow> False)"

definition var_ahead :: "string \<Rightarrow> bool" where
  "var_ahead s = (case s of c # d # rest \<Rightarrow> c = CHR ''{'' \<and> d = CHR ''{'' | _ \<Rightarrow> False)"

fun markup_scan :: "string \<Rightarrow> nat option" where
  "markup_scan [] = None"
| "markup_scan (c # cs) =
     (if var_ahead (c # cs) then Some 0
      else if c = NL \<and> stmt_ahead cs then Some 1
      else map_option Suc (markup_scan cs))"

definition markup_match :: "string \<Rightarrow> nat \<Rightarrow> nat option" where
  "markup_match source pos =
     (case markup_scan (drop pos source) of
        Some n \<Rightarrow> Some (pos + n)
      | None \<Rightarrow> if drop pos source = [] then None else Some (length source))"

text \<open>\<^verbatim>\<open>_s(r'\1', text)\<close> for the pattern \<^verbatim>\<open>(\n *%)%\<close>: after a newline and
  blanks, a doubled statement leader loses its second character.\<close>

function unescape_leader :: "string \<Rightarrow> string" where
  "unescape_leader [] = []"
| "unescape_leader (c # cs) =
     (if c = NL then
        (case dropWhile is_blank cs of
           d # e # rest \<Rightarrow>
             if d = CHR ''%'' \<and> e = CHR ''%''
             then NL # takeWhile is_blank cs @ CHR ''%'' # unescape_leader rest
             else NL # unescape_leader cs
         | _ \<Rightarrow> NL # unescape_leader cs)
      else c # unescape_leader cs)"
  by pat_completeness auto

lemma dropWhile_eq_Cons2_length:
  "dropWhile P xs = d # e # rest \<Longrightarrow> length rest < length xs"
proof -
  assume h: "dropWhile P xs = d # e # rest"
  have "length (dropWhile P xs) \<le> length xs" by (rule length_dropWhile_le)
  with h show ?thesis by simp
qed

termination unescape_leader
  by (relation "measure length") (auto dest: dropWhile_eq_Cons2_length)

text \<open>\<^verbatim>\<open>mtok\<close>: the character before the match (a newline at position 0) is put in
  front for the substitution and taken off again by \<^verbatim>\<open>[1:]\<close>.\<close>

definition mtok :: rule where
  "mtok source pos =
     (case markup_match source pos of
        None \<Rightarrow> Inr None
      | Some npos \<Rightarrow>
          Inr (Some (npos, Markup,
            TStr (line_join_sub (drop 1 (unescape_leader
              ((if pos > 0 then source ! (pos - 1) else NL) # slice source pos npos)))))))"

text \<open>\<^verbatim>\<open>Parser.__init__\<close> hands the three rules to the \<^verbatim>\<open>Lexer\<close> in this order.\<close>

definition Parser_rules :: "rule list" where
  "Parser_rules = [stmt_token, var_token, mtok]"

definition Parser_tokenize :: "string \<Rightarrow> error + token list" where
  "Parser_tokenize source = tokenize Parser_rules source"

subsection \<open>Nodes, end_continue and parse_iter\<close>

text \<open>A node is a triple \<^verbatim>\<open>(lineno, token, value)\<close>. Its value is the value of a token
  (\<open>Leaf\<close>), the operands of an \<^verbatim>\<open>'out'\<close> node (\<open>Ops\<close>), the pair
  \<^verbatim>\<open>(value, vals)\<close> of a compound node (\<open>Block\<close>), or the node list of the
  \<^verbatim>\<open>'render'\<close> node (\<open>Nodes\<close>).\<close>

datatype node = Node (nline: int) (nkind: kind) (nval: nvalue)
  and nvalue = Leaf tvalue | Ops "token list" | Block tvalue "node list" | Nodes "node list"

fun end_continue :: "token list \<Rightarrow> token list" where
  "end_continue [] = []"
| "end_continue ((lineno, token, v) # ts) =
     (if token = Continue
      then (lineno, End, TNone) # (lineno, Compound, v) # end_continue ts
      else (lineno, token, v) # end_continue ts)"

text \<open>\<^verbatim>\<open>if operands: yield operands[0][0], 'out', operands\<close>\<close>

definition flush :: "token list \<Rightarrow> node list" where
  "flush operands =
     (case operands of [] \<Rightarrow> [] | t # ts \<Rightarrow> [Node (fst t) Out (Ops operands)])"

text \<open>\<^verbatim>\<open>parse_iter\<close> is a generator over one shared token iterator: the recursive call
  for the body of a compound token consumes tokens of the same iterator, and the loop of
  the caller goes on with what is left. \<open>parse_loop operands tokens\<close> is the loop with
  its pending operands; it returns the nodes it yields and the tokens it has not
  consumed.\<close>

function parse_loop :: "token list \<Rightarrow> token list \<Rightarrow> error + (node list \<times> token list)" where
  "parse_loop operands [] = Inr (flush operands, [])"
| "parse_loop operands ((lineno, token, v) # ts) =
     (if token \<in> OUT_TOKENS then parse_loop (operands @ [(lineno, token, v)]) ts
      else if token \<in> COMPOUND_TOKENS then
        (case parse_loop [] ts of
           Inl e \<Rightarrow> Inl e
         | Inr (vals, rest) \<Rightarrow>
             if token \<noteq> Extends \<and> vals \<noteq> [] \<and> nkind (last vals) \<noteq> End
             then Inl (MissingEnd (nline (last vals)))
             else (case parse_loop [] rest of
                     Inl e \<Rightarrow> Inl e
                   | Inr (ns, rest') \<Rightarrow>
                       Inr (flush operands @ Node lineno token (Block v vals) # ns, rest')))
      else if token = End then Inr (flush operands @ [Node lineno token (Leaf v)], ts)
      else (case parse_loop [] ts of
              Inl e \<Rightarrow> Inl e
            | Inr (ns, rest') \<Rightarrow> Inr (flush operands @ Node lineno token (Leaf v) # ns, rest')))"
  by pat_completeness auto

lemma parse_loop_rest_length:
  "parse_loop_dom (operands, ts) \<Longrightarrow> parse_loop operands ts = Inr (ns, rest)
     \<Longrightarrow> length rest \<le> length ts"
proof (induction operands ts arbitrary: ns rest rule: parse_loop.pinduct)
  case (1 operands)
  then show ?case by (simp add: parse_loop.psimps)
next
  case (2 operands lineno token v ts)
  show ?case
  proof (cases "token \<in> OUT_TOKENS")
    case True
    with "2.prems" "2.hyps" have "parse_loop (operands @ [(lineno, token, v)]) ts = Inr (ns, rest)"
      by (simp add: parse_loop.psimps)
    with True "2.IH"(1) have "length rest \<le> length ts" by blast
    then show ?thesis by simp
  next
    case out: False
    show ?thesis
    proof (cases "token \<in> COMPOUND_TOKENS")
      case True
      from out True "2.prems" "2.hyps" obtain vals r1 ns1 where
        inner: "parse_loop [] ts = Inr (vals, r1)" and
        ok: "\<not> (token \<noteq> Extends \<and> vals \<noteq> [] \<and> nkind (last vals) \<noteq> End)" and
        outer: "parse_loop [] r1 = Inr (ns1, rest)"
        by (auto simp: parse_loop.psimps split: sum.splits if_splits prod.splits)
      from out True inner "2.IH"(2) have l1: "length r1 \<le> length ts" by blast
      from out True inner ok outer "2.IH"(3) [of "(vals, r1)" vals r1 ns1 rest]
      have "length rest \<le> length r1" by auto
      with l1 show ?thesis by simp
    next
      case cmp: False
      show ?thesis
      proof (cases "token = End")
        case True
        with out cmp "2.prems" "2.hyps" show ?thesis by (simp add: parse_loop.psimps)
      next
        case False
        from out cmp False "2.prems" "2.hyps" obtain ns1 where
          "parse_loop [] ts = Inr (ns1, rest)"
          by (auto simp: parse_loop.psimps split: sum.splits prod.splits)
        with out cmp False "2.IH"(4) have "length rest \<le> length ts" by blast
        then show ?thesis by simp
      qed
    qed
  qed
qed

termination parse_loop
proof (relation "measure (\<lambda>(operands, ts). length ts)", goal_cases)
  case 1
  show ?case by simp
next
  case (2 operands lineno token v ts)
  show ?case by simp
next
  case (3 operands lineno token v ts)
  show ?case by simp
next
  case (4 operands lineno token v ts x2 x y)
  then have "length y \<le> length ts" by (auto dest: parse_loop_rest_length)
  then show ?case by simp
next
  case (5 operands lineno token v ts)
  show ?case by simp
qed

declare parse_loop.simps [simp del]

text \<open>\<^verbatim>\<open>list(self.parse_iter(tokens))\<close> at the top level: the nodes the generator
  yields. Tokens after a top-level \<^verbatim>\<open>end\<close> are not read.\<close>

definition parse_iter :: "token list \<Rightarrow> error + node list" where
  "parse_iter tokens = (case parse_loop [] tokens of Inl e \<Rightarrow> Inl e | Inr (ns, rest) \<Rightarrow> Inr ns)"

text \<open>The tokenize and parse steps of \<^verbatim>\<open>Engine.load_and_parse\<close>, for the source text
  the loader returned.\<close>

definition parse_source :: "string \<Rightarrow> error + node list" where
  "parse_source template_source =
     (case Parser_tokenize template_source of
        Inl e \<Rightarrow> Inl e
      | Inr tokens \<Rightarrow> parse_iter (end_continue tokens))"

subsection \<open>More string primitives: repr, rsplit, replace\<close>

text \<open>\<^verbatim>\<open>repr(s)\<close> of a string (Python 3, characters below 256): the quote is the double
  quote if the string has a single quote and no double quote, otherwise the single quote;
  the backslash and the quote are escaped, and so are the characters that are not
  printable.\<close>

definition hexdigit :: "nat \<Rightarrow> char" where
  "hexdigit n = ''0123456789abcdef'' ! (n mod 16)"

definition repr_char :: "char \<Rightarrow> char \<Rightarrow> string" where
  "repr_char q c =
     (let n = of_char c :: nat in
      if c = BSL \<or> c = q then [BSL, c]
      else if c = NL then [BSL, CHR ''n'']
      else if c = CR then [BSL, CHR ''r'']
      else if c = CHR 0x09 then [BSL, CHR ''t'']
      else if n < 32 \<or> n = 127 \<or> (128 \<le> n \<and> n \<le> 160) \<or> n = 173
        then [BSL, CHR ''x'', hexdigit (n div 16), hexdigit n]
      else [c])"

definition repr_quote :: "string \<Rightarrow> char" where
  "repr_quote s = (if SQ \<in> set s \<and> DQ \<notin> set s then DQ else SQ)"

definition py_repr :: "string \<Rightarrow> string" where
  "py_repr s = (let q = repr_quote s in [q] @ concat (map (repr_char q) s) @ [q])"

text \<open>\<^verbatim>\<open>s.rsplit(None, n)\<close>: words split off from the right at runs of whitespace, at
  most \<open>n\<close> of them; what is left keeps its inner and leading whitespace.\<close>

fun rsplit_ws :: "nat \<Rightarrow> string \<Rightarrow> string list" where
  "rsplit_ws n s =
     (let t = rstrip s in
      if t = [] then []
      else (case n of
              0 \<Rightarrow> [t]
            | Suc m \<Rightarrow>
                rsplit_ws m (rev (dropWhile (\<lambda>c. \<not> py_space c) (rev t)))
                  @ [rev (takeWhile (\<lambda>c. \<not> py_space c) (rev t))]))"

text \<open>\<^verbatim>\<open>template.replace('?', name)\<close>\<close>

definition replace_char :: "char \<Rightarrow> string \<Rightarrow> string \<Rightarrow> string" where
  "replace_char c name template = concat (map (\<lambda>d. if d = c then name else [d]) template)"

text \<open>\<^verbatim>\<open>s.index(c, start)\<close>, or \<^verbatim>\<open>None\<close> where Python raises \<^verbatim>\<open>ValueError\<close>.\<close>

definition index_from :: "char \<Rightarrow> nat \<Rightarrow> string \<Rightarrow> nat option" where
  "index_from c start s =
     (if c \<in> set (drop start s)
      then Some (start + length (takeWhile (\<lambda>d. d \<noteq> c) (drop start s)))
      else None)"

text \<open>\<^verbatim>\<open>isidentifier = re.compile(r'[a-zA-Z_]\w*').match\<close>: a match object if the string
  begins with a letter or an underscore.\<close>

definition isidentifier :: "string \<Rightarrow> bool" where
  "isidentifier s =
     (case s of
        [] \<Rightarrow> False
      | c # cs \<Rightarrow> (let n = of_char c :: nat in
                   (97 \<le> n \<and> n \<le> 122) \<or> (65 \<le> n \<and> n \<le> 90) \<or> n = 95))"

subsection \<open>BlockBuilder\<close>

text \<open>The builder is a list of lines (\<open>lines\<close> is \<^verbatim>\<open>self\<close>) with the attributes
  \<^verbatim>\<open>indent\<close>, \<^verbatim>\<open>lineno\<close>, \<^verbatim>\<open>offset\<close>, \<^verbatim>\<open>local_vars\<close> and \<^verbatim>\<open>default_filters\<close>.\<close>

record builder =
  lines :: "string list"
  indent :: string
  lineno :: int
  offset :: int
  local_vars :: "string set"
  default_filters :: "string list"

definition writer_declare :: string where
  "writer_declare = ''_b = []; w = _b.append''"

definition writer_return :: string where
  \<open>writer_return = ''return "".join(_b)''\<close>

text \<open>\<^verbatim>\<open>filters = {'e': 'escape'}\<close> and \<^verbatim>\<open>self.filters.get(f, f)\<close>\<close>

definition filters_get :: "string \<Rightarrow> string" where
  "filters_get f = (if f = ''e'' then ''escape'' else f)"

text \<open>\<^verbatim>\<open>setdefs('?', name)\<close>\<close>

definition setdefs :: "string \<Rightarrow> string" where
  \<open>setdefs name =
     replace_char (CHR ''?'') name ''super_defs['?'] = ?; ? = local_defs.setdefault('?', ?)''\<close>

text \<open>\<^verbatim>\<open>BlockBuilder.add\<close>. The two \<^verbatim>\<open>assert\<close>s of the source are the branches to
  \<open>AssertionError\<close>; \<^verbatim>\<open>self[-1]\<close> on an empty list raises \<open>IndexError\<close>.\<close>

definition add :: "int \<Rightarrow> string \<Rightarrow> builder \<Rightarrow> error + builder" where
  "add ln code0 b =
     (if \<not> ln \<ge> lineno b then Inl AssertionError
      else (let code = (if code0 = ''return'' then writer_return else code0) in
        if ln > lineno b then
          Inr (b\<lparr>lines := lines b @ replicate (nat (ln - lineno b - 1)) []
                         @ [if code \<noteq> [] then indent b @ code else []],
                lineno := ln + int (count_nl code)\<rparr>)
        else if code \<noteq> [] then
          (if lines b = [] then Inl IndexError
           else (let l = last (lines b);
                     l' = (if l = [] then indent b
                           else if last l \<noteq> CHR '':'' then l @ ''; ''
                           else l)
                 in Inr (b\<lparr>lines := butlast (lines b) @ [l' @ code],
                          lineno := ln + int (count_nl code)\<rparr>)))
        else Inr (b\<lparr>lineno := ln + int (count_nl code)\<rparr>)))"

text \<open>\<^verbatim>\<open>__enter__\<close> and \<^verbatim>\<open>__exit__\<close>\<close>

definition enter :: "builder \<Rightarrow> builder" where
  "enter b = b\<lparr>indent := indent b @ ''    ''\<rparr>"

definition exit_block :: "builder \<Rightarrow> builder" where
  "exit_block b = b\<lparr>indent := take (length (indent b) - 4) (indent b)\<rparr>"

text \<open>One operand of \<^verbatim>\<open>build_out\<close>: the code written for it, if any. For a
  \<^verbatim>\<open>var\<close> the filters are split off the expression at the bars; \<open>apply_filter\<close> is
  one round of the loop, \<^verbatim>\<open>value = self.filters.get(f, f) + '(' + value + ')'\<close>.\<close>

definition apply_filter :: "string \<Rightarrow> string \<Rightarrow> string" where
  "apply_filter e f = filters_get f @ ''('' @ e @ '')''"

definition var_code :: "string list \<Rightarrow> string \<Rightarrow> string" where
  "var_code dflt v =
     (let filters = map strip (split_on (CHR ''|'') v);
          expr = hd filters;
          fs = tl filters;
          fs' = (if fs \<noteq> [] \<and> last fs = ''n'' then butlast fs else fs @ dflt)
      in foldl apply_filter expr fs')"

definition out_code :: "string list \<Rightarrow> kind \<Rightarrow> string \<Rightarrow> string" where
  "out_code dflt token v =
     (if token = Include then ''_r('' @ v @ '', ctx, local_defs, super_defs)''
      else if token = Var then var_code dflt v
      else if v \<noteq> [] then py_repr v
      else v)"

fun build_out :: "token list \<Rightarrow> builder \<Rightarrow> error + builder" where
  "build_out [] b = Inr b"
| "build_out ((ln, token, v) # ts) b =
     (case v of
        TStr s \<Rightarrow>
          (let c = out_code (default_filters b) token s in
           if c \<noteq> [] then
             (case add ln (''w('' @ c @ '')'') b of
                Inl e \<Rightarrow> Inl e
              | Inr b' \<Rightarrow> build_out ts b')
           else build_out ts b)
      | _ \<Rightarrow> Inl TypeError)"

text \<open>\<^verbatim>\<open>build_require\<close>; \<open>bindings\<close> is the statement it writes for the names that
  are not yet bound.\<close>

definition bindings :: "string list \<Rightarrow> string" where
  "bindings keys = join ''; '' (map (\<lambda>v. v @ '' = ctx['' @ [SQ] @ v @ [SQ] @ '']'') keys)"

definition build_require :: "int \<Rightarrow> string list \<Rightarrow> builder \<Rightarrow> error + builder" where
  "build_require ln names b =
     add ln (bindings (filter (\<lambda>v. v \<notin> local_vars b) names))
       (b\<lparr>local_vars := local_vars b \<union> set names\<rparr>)"

definition build_end :: "int \<Rightarrow> builder \<Rightarrow> error + builder" where
  "build_end ln b = (if lineno b \<noteq> ln then add (ln - 1) [] b else Inr b)"

definition build_import :: "int \<Rightarrow> string \<Rightarrow> builder \<Rightarrow> error + builder" where
  "build_import ln v b =
     (let parts = rsplit_ws 2 (drop 7 v) in
      if length parts = 3 \<and> parts ! 1 = ''as''
           \<and> (parts ! 0 \<in> local_vars b \<or> \<not> isidentifier (parts ! 0))
      then add ln (parts ! 2 @ '' = _i('' @ parts ! 0 @ '')'') b
      else add ln v b)"

definition build_from :: "int \<Rightarrow> string \<Rightarrow> builder \<Rightarrow> error + builder" where
  "build_from ln v b =
     (case rsplit_ws 2 (drop 5 v) of
        [name0, token0, var0] \<Rightarrow>
          (if token0 = ''as'' then
             (case rsplit_ws 2 name0 of
                [name, token, var] \<Rightarrow>
                  if token \<noteq> ''import'' then Inl AssertionError
                  else if name \<in> local_vars b \<or> \<not> isidentifier name
                  then add ln (var0 @ '' = _i('' @ name @ '').local_defs['' @ [SQ] @ var
                                 @ [SQ] @ '']'') b
                  else add ln v b
              | _ \<Rightarrow> Inl ValueError)
           else if token0 \<noteq> ''import'' then Inl AssertionError
           else if name0 \<in> local_vars b \<or> \<not> isidentifier name0
           then add ln (var0 @ '' = _i('' @ name0 @ '').local_defs['' @ [SQ] @ var0
                          @ [SQ] @ '']'') b
           else add ln v b)
      | _ \<Rightarrow> Inl ValueError)"

text \<open>The name of a token kind, as \<^verbatim>\<open>build_def\<close> prints it in its message.\<close>

definition kind_name :: "kind \<Rightarrow> string" where
  "kind_name k =
     (case k of
        Markup \<Rightarrow> ''markup'' | Var \<Rightarrow> ''var'' | Include \<Rightarrow> ''include''
      | Require \<Rightarrow> ''require'' | Import \<Rightarrow> ''import'' | From \<Rightarrow> ''from''
      | Statement \<Rightarrow> ''statement'' | Compound \<Rightarrow> ''compound'' | Continue \<Rightarrow> ''continue''
      | End \<Rightarrow> ''end'' | Extends \<Rightarrow> ''extends'' | Def \<Rightarrow> ''def'' | Hash \<Rightarrow> ''#''
      | Out \<Rightarrow> ''out'' | Render \<Rightarrow> ''render'')"

definition def_error :: "kind \<Rightarrow> string \<Rightarrow> string" where
  "def_error token stmt =
     ''The compound statement '' @ [SQ] @ kind_name token @ [SQ]
       @ '' is not allowed here. Add a line before it with %#ignore.'' @ [NL, NL]
       @ stmt @ [NL] @ ''    %#ignore'' @ [NL] @ ''    %'' @ kind_name token @ '' ...''"

text \<open>The name of a \<^verbatim>\<open>def\<close>: \<^verbatim>\<open>stmt[4:stmt.index('(', 5)]\<close>.\<close>

definition def_name :: "string \<Rightarrow> string option" where
  "def_name stmt = map_option (\<lambda>i. slice stmt 4 i) (index_from (CHR ''('') 5 stmt)"

text \<open>The single markup of a \<^verbatim>\<open>def\<close> body, with the line where the
  \<^verbatim>\<open>return\<close> goes: \<^verbatim>\<open>single_markup\<close> and \<^verbatim>\<open>ln\<close> of \<^verbatim>\<open>build_def\<close> before the
  \<^verbatim>\<open>with\<close>.\<close>

definition def_single_markup :: "int \<Rightarrow> node list \<Rightarrow> (int \<times> string option)" where
  "def_single_markup ln nodes =
     (case nodes of
        [n] \<Rightarrow> (ln, Some [])
      | [Node l0 token sub, m] \<Rightarrow>
          (case sub of
             Ops [(l1, t1, v1)] \<Rightarrow>
               if token = Out then
                 (l1, (if t1 = Markup then (case v1 of TStr s \<Rightarrow> Some s | _ \<Rightarrow> None)
                       else None))
               else (l0, None)
           | _ \<Rightarrow> (l0, None))
      | Node l0 token sub # ms \<Rightarrow> (l0, None)
      | [] \<Rightarrow> (ln, None))"

text \<open>The branch of \<^verbatim>\<open>build_def\<close> for a body that begins with a compound statement:
  the \<^verbatim>\<open>def\<close> raises when it is called, and the \<^verbatim>\<open>return\<close> inside the \<^verbatim>\<open>with\<close>
  leaves before the line of \<^verbatim>\<open>setdefs\<close> is written.\<close>

definition build_def_refused :: "int \<Rightarrow> string \<Rightarrow> int \<Rightarrow> kind \<Rightarrow> builder \<Rightarrow> error + builder" where
  "build_def_refused ln stmt l0 token0 b =
     (case add ln stmt b of
        Inl e \<Rightarrow> Inl e
      | Inr b1 \<Rightarrow>
          (case add l0 (''raise SyntaxError('' @ py_repr (def_error token0 stmt) @ '')'')
                  (enter b1) of
             Inl e \<Rightarrow> Inl e
           | Inr b2 \<Rightarrow> Inr (exit_block b2)))"

text \<open>The last line of \<^verbatim>\<open>build_def\<close>: \<^verbatim>\<open>self.add(ln + 1, setdefs('?', name))\<close>, after
  the \<^verbatim>\<open>with\<close> block has been left.\<close>

definition build_def_register :: "string \<Rightarrow> int \<Rightarrow> builder \<Rightarrow> error + builder" where
  "build_def_register stmt l2 b =
     (case def_name stmt of
        None \<Rightarrow> Inl ValueError
      | Some name \<Rightarrow> add (l2 + 1) (setdefs name) (exit_block b))"

text \<open>\<^verbatim>\<open>build_block\<close> and \<^verbatim>\<open>build_token\<close> with the rules of the table
  \<^verbatim>\<open>BlockBuilder.rules\<close>: \<^verbatim>\<open>add\<close> for a statement, nothing for a comment,
  \<^verbatim>\<open>build_import\<close>, \<^verbatim>\<open>build_from\<close>, \<^verbatim>\<open>build_render\<close>, \<^verbatim>\<open>build_require\<close>,
  \<^verbatim>\<open>build_out\<close>, \<^verbatim>\<open>build_compound\<close>, \<^verbatim>\<open>build_def\<close> and \<^verbatim>\<open>build_end\<close>. A kind
  with no entry in the table fails the \<^verbatim>\<open>assert\<close> of \<^verbatim>\<open>build_token\<close>. A value of
  the wrong shape is a \<open>TypeError\<close>.\<close>

text \<open>The two special cases of \<^verbatim>\<open>build_render\<close>. \<open>render_extends\<close>: the node list
  has fewer than three nodes and its last node is an \<^verbatim>\<open>extends\<close>; the result is the
  pair \<^verbatim>\<open>(extends, nodes)\<close> of that node. \<open>render_literal\<close>: the node list is one
  \<^verbatim>\<open>out\<close> node with one operand, a markup; the result is the line and the text of the
  operand.\<close>

definition render_extends :: "node list \<Rightarrow> (error + string \<times> node list) option" where
  "render_extends nodes =
     (if nodes \<noteq> [] \<and> length nodes < 3 \<and> nkind (last nodes) = Extends then
        (case nval (last nodes) of
           Block tv sub \<Rightarrow> (case tv of TStr e \<Rightarrow> Some (Inr (e, sub)) | _ \<Rightarrow> Some (Inl TypeError))
         | _ \<Rightarrow> Some (Inl TypeError))
      else None)"

definition render_literal :: "node list \<Rightarrow> (int \<times> string) option" where
  "render_literal nodes =
     (case nodes of
        [n] \<Rightarrow>
          (case nval n of
             Ops operands \<Rightarrow>
               (case operands of
                  [t] \<Rightarrow>
                    (case snd (snd t) of
                       TStr m \<Rightarrow>
                         if nkind n = Out \<and> fst (snd t) = Markup then Some (fst t, m) else None
                     | _ \<Rightarrow> None)
                | _ \<Rightarrow> None)
           | _ \<Rightarrow> None)
      | _ \<Rightarrow> None)"

function build_block :: "node list \<Rightarrow> builder \<Rightarrow> error + builder"
  and build_token :: "node \<Rightarrow> builder \<Rightarrow> error + builder" where
  "build_block [] b = Inr b"
| "build_block (n # ns) b =
     (case build_token n b of
        Inl e \<Rightarrow> Inl e
      | Inr b' \<Rightarrow> build_block ns b')"
| "build_token (Node ln token v) b =
     (if token = Statement then
        (case v of Leaf (TStr s) \<Rightarrow> add ln s b | _ \<Rightarrow> Inl TypeError)
      else if token = Hash then Inr b
      else if token = Import then
        (case v of Leaf (TStr s) \<Rightarrow> build_import ln s b | _ \<Rightarrow> Inl TypeError)
      else if token = From then
        (case v of Leaf (TStr s) \<Rightarrow> build_from ln s b | _ \<Rightarrow> Inl TypeError)
      else if token = Require then
        (case v of Leaf (TList names) \<Rightarrow> build_require ln names b | _ \<Rightarrow> Inl TypeError)
      else if token = Out then
        (case v of Ops operands \<Rightarrow> build_out operands b | _ \<Rightarrow> Inl TypeError)
      else if token = End then build_end ln b
      else if token = Compound then
        (case v of
           Block tv nodes \<Rightarrow>
             (case tv of
                TStr stmt \<Rightarrow>
                  (case add ln stmt b of
                     Inl e \<Rightarrow> Inl e
                   | Inr b1 \<Rightarrow>
                       (case build_block nodes (enter b1) of
                          Inl e \<Rightarrow> Inl e
                        | Inr b2 \<Rightarrow> Inr (exit_block b2)))
              | _ \<Rightarrow> Inl TypeError)
         | _ \<Rightarrow> Inl TypeError)
      else if token = Def then
        (case v of
           Block tv nodes \<Rightarrow>
             (case tv of
                TStr stmt \<Rightarrow>
                  if nodes = [] then Inl IndexError
                  else if nkind (hd nodes) \<in> COMPOUND_TOKENS
                    then build_def_refused ln stmt (nline (hd nodes)) (nkind (hd nodes)) b
                  else
                    (case add ln stmt b of
                       Inl e \<Rightarrow> Inl e
                     | Inr b1 \<Rightarrow>
                         (case snd (def_single_markup ln nodes) of
                            None \<Rightarrow>
                              (case add (ln + 1) writer_declare (enter b1) of
                                 Inl e \<Rightarrow> Inl e
                               | Inr b2 \<Rightarrow>
                                   (case build_block nodes b2 of
                                      Inl e \<Rightarrow> Inl e
                                    | Inr b3 \<Rightarrow>
                                        (case add (lineno b3) writer_return b3 of
                                           Inl e \<Rightarrow> Inl e
                                         | Inr b4 \<Rightarrow> build_def_register stmt (lineno b3) b4)))
                          | Some m \<Rightarrow>
                              (case add (fst (def_single_markup ln nodes))
                                      (''return '' @ py_repr m) (enter b1) of
                                 Inl e \<Rightarrow> Inl e
                               | Inr b2 \<Rightarrow>
                                   build_def_register stmt (fst (def_single_markup ln nodes)) b2)))
              | _ \<Rightarrow> Inl TypeError)
         | _ \<Rightarrow> Inl TypeError)
      else if token = Render then
        (case v of
           Nodes nodes \<Rightarrow>
             if \<not> ln \<le> 0 then Inl AssertionError
             else if nodes = [] then add ln (''return '' @ [SQ, SQ]) b
             else
               (case render_extends nodes of
                  Some r \<Rightarrow>
                    (case r of
                       Inl e \<Rightarrow> Inl e
                     | Inr (extends, sub) \<Rightarrow>
                         (case build_block
                                 (filter (\<lambda>n. nkind n = Def \<or> nkind n = Require) sub) b of
                            Inl e \<Rightarrow> Inl e
                          | Inr b1 \<Rightarrow>
                              add (lineno b1 + 1)
                                (''return _r('' @ extends @ '', ctx, local_defs, super_defs)'') b1))
                | None \<Rightarrow>
                    (case render_literal nodes of
                       Some (l2, m) \<Rightarrow> add l2 (''return '' @ py_repr m) b
                     | None \<Rightarrow>
                         (case add ln writer_declare b of
                            Inl e \<Rightarrow> Inl e
                          | Inr b1 \<Rightarrow>
                              (case build_block nodes b1 of
                                 Inl e \<Rightarrow> Inl e
                               | Inr b2 \<Rightarrow> add (lineno b2 + 1) writer_return b2))))
         | _ \<Rightarrow> Inl TypeError)
      else Inl AssertionError)"
  by pat_completeness auto

lemma size_list_filter_le: "size_list f (filter P xs) \<le> size_list f xs"
  by (induction xs) auto

lemma size_last_le: "xs \<noteq> [] \<Longrightarrow> f (last xs) \<le> size_list f xs"
  by (induction xs) auto

lemma render_extends_size:
  assumes "render_extends nodes = Some (Inr (e, sub))"
  shows "size_list size sub < size_list size nodes"
proof -
  from assms have ne: "nodes \<noteq> []" and blk: "nval (last nodes) = Block (TStr e) sub"
    by (auto simp: render_extends_def split: if_splits nvalue.splits tvalue.splits)
  from blk have "size_list size sub < size (last nodes)"
    by (cases "last nodes") auto
  also from ne have "\<dots> \<le> size_list size nodes" by (rule size_last_le)
  finally show ?thesis .
qed

lemma render_extends_filter_size:
  assumes "render_extends nodes = Some (Inr (e, sub))"
  shows "size_list size (filter P sub) < Suc (Suc (size_list size nodes))"
proof -
  have "size_list size (filter P sub) \<le> size_list size sub" by (rule size_list_filter_le)
  also from assms have "\<dots> < size_list size nodes" by (rule render_extends_size)
  finally show ?thesis by simp
qed

termination build_block
  by (relation "measure (\<lambda>x. case x of Inl (ns, b) \<Rightarrow> size_list size ns
                                    | Inr (n, b) \<Rightarrow> size n)")
     (auto intro: render_extends_filter_size)

declare build_token.simps [simp del]

subsection \<open>Line order of the tokens\<close>

lemma tokenize_loop_sorted:
  assumes "tokenize_loop rules source pos ln0 tokens = Inr out"
    and "sorted (map fst tokens)"
    and "\<forall>t \<in> set tokens. fst t \<le> ln0"
  shows "sorted (map fst out)"
  using assms
proof (induction rules source pos ln0 tokens rule: tokenize_loop.induct)
  case (1 rules source pos ln0 tokens)
  show ?case
  proof (cases "pos < length source")
    case False
    with "1.prems" show ?thesis by (simp add: tokenize_loop.simps)
  next
    case True
    show ?thesis
    proof (cases "first_rule rules source pos")
      case (Inl e)
      with True "1.prems"(1) show ?thesis by (simp add: tokenize_loop.simps)
    next
      case (Inr rv)
      obtain npos token v where rv: "rv = (npos, token, v)" by (cases rv)
      show ?thesis
      proof (cases "npos > pos")
        case False
        with True Inr rv "1.prems"(1) show ?thesis by (simp add: tokenize_loop.simps)
      next
        case adv: True
        let ?ln1 = "ln0 + int (count_nl (slice source pos npos))"
        let ?tokens = "tokens @ [(ln0, token, v)]"
        from True Inr rv adv "1.prems"(1)
        have run: "tokenize_loop rules source npos ?ln1 ?tokens = Inr out"
          by (simp add: tokenize_loop.simps [of rules source pos])
        from "1.prems"(2,3) have srt: "sorted (map fst ?tokens)"
          by (auto simp: sorted_append)
        from "1.prems"(3) have bnd: "\<forall>t \<in> set ?tokens. fst t \<le> ?ln1"
          by auto
        from True Inr rv adv run srt bnd show ?thesis
          by (intro "1.IH" [of "(npos, token, v)" npos "(token, v)" token v]) auto
      qed
    qed
  qed
qed

text \<open>
  Claim C9 (as amended). For every list of rules and every source on which
  \<^verbatim>\<open>Lexer.tokenize\<close> returns, the line numbers of the returned tokens never decrease
  from one token to the next. (They need not increase: several tokens can lie on one
  line.)
\<close>

theorem tokenize_lines_nondecreasing:
  "tokenize rules source = Inr toks \<Longrightarrow> sorted (map fst toks)"
  unfolding tokenize_def by (erule tokenize_loop_sorted) simp_all

theorem tokenize_lines_nondecreasing_witness:
  \<open>tokenize Parser_rules (''%for x in items'' @ [NL] @ ''{{x}}'' @ [NL] @ ''%endfor'' @ [NL])
     = Inr [(1, Compound, TStr ''for x in items''), (2, Var, TStr ''x''),
            (2, Markup, TStr [NL]), (3, End, TStr ''endfor'')]
   \<and> sorted (map fst [(1, Compound, TStr ''for x in items''), (2, Var, TStr ''x''),
            (2, Markup, TStr [NL]), (3::int, End, TStr ''endfor'')])\<close>
proof -
  have t: \<open>tokenize Parser_rules (''%for x in items'' @ [NL] @ ''{{x}}'' @ [NL] @ ''%endfor'' @ [NL])
     = Inr [(1, Compound, TStr ''for x in items''), (2, Var, TStr ''x''),
            (2, Markup, TStr [NL]), (3, End, TStr ''endfor'')]\<close>
    by code_simp
  from tokenize_lines_nondecreasing [OF t] t show ?thesis by simp
qed

text \<open>
  Claim C9 as stated fails: the tokens of the variable \<^verbatim>\<open>{{x}}\<close> and of the newline
  after it are both on line 2, so the line numbers are not strictly increasing.
\<close>

theorem tokenize_lines_not_strict:
  \<open>tokenize Parser_rules (''%for x in items'' @ [NL] @ ''{{x}}'' @ [NL] @ ''%endfor'' @ [NL])
     = Inr [(1, Compound, TStr ''for x in items''), (2, Var, TStr ''x''),
            (2, Markup, TStr [NL]), (3, End, TStr ''endfor'')]
   \<and> \<not> sorted_wrt (<) (map fst [(1, Compound, TStr ''for x in items''), (2, Var, TStr ''x''),
            (2, Markup, TStr [NL]), (3::int, End, TStr ''endfor'')])\<close>
  by code_simp

subsection \<open>The line of the missing end error\<close>

text \<open>A token is \<open>plain\<close> if it neither opens nor closes a block, and \<open>is_out\<close> if
  \<^verbatim>\<open>parse_iter\<close> collects it as an operand. \<open>last_group_line\<close> is the line of the last
  node \<^verbatim>\<open>parse_iter\<close> makes of a list of plain tokens: if the list ends in operands,
  the line of the first operand of that last run; otherwise the line of the last
  token.\<close>

definition plain :: "token \<Rightarrow> bool" where
  "plain t = (fst (snd t) \<notin> COMPOUND_TOKENS \<and> fst (snd t) \<noteq> End)"

definition is_out :: "token \<Rightarrow> bool" where
  "is_out t = (fst (snd t) \<in> OUT_TOKENS)"

definition last_group_line :: "token list \<Rightarrow> int" where
  "last_group_line body =
     (case rev (takeWhile is_out (rev body)) of
        [] \<Rightarrow> fst (last body)
      | t # run \<Rightarrow> fst t)"

lemma takeWhile_rev_all: "\<forall>x \<in> set xs. P x \<Longrightarrow> takeWhile P (rev xs) = rev xs"
proof -
  assume "\<forall>x \<in> set xs. P x"
  then have "\<forall>x \<in> set (rev xs). P x" by simp
  then show ?thesis by (simp only: takeWhile_eq_all_conv)
qed

lemma last_group_line_all_out:
  "list_all is_out ops \<Longrightarrow> ops \<noteq> [] \<Longrightarrow> last_group_line ops = fst (hd ops)"
proof -
  assume a: "list_all is_out ops" and ne: "ops \<noteq> []"
  from a have "takeWhile is_out (rev ops) = rev ops"
    by (intro takeWhile_rev_all) (simp add: list_all_iff)
  then have "rev (takeWhile is_out (rev ops)) = ops" by (simp only: rev_rev_ident)
  then have "last_group_line ops = (case ops of [] \<Rightarrow> fst (last ops) | t # run \<Rightarrow> fst t)"
    unfolding last_group_line_def by (simp only:)
  with ne show ?thesis by (cases ops) simp_all
qed

lemma last_group_line_skip:
  assumes "\<not> is_out t" and "ts \<noteq> []"
  shows "last_group_line (ops @ t # ts) = last_group_line ts"
proof -
  have "takeWhile is_out (rev (ops @ t # ts)) = takeWhile is_out (rev ts)"
  proof (cases "list_all is_out (rev ts)")
    case True
    then have "\<And>x. x \<in> set (rev ts) \<Longrightarrow> is_out x" by (simp add: list_all_iff)
    then have "takeWhile is_out (rev ts @ t # rev ops) = rev ts @ takeWhile is_out (t # rev ops)"
      by (rule takeWhile_append2)
    moreover from True have "takeWhile is_out (rev ts) = rev ts"
      by (intro takeWhile_rev_all) (simp add: list_all_iff)
    moreover from assms(1) have "takeWhile is_out (t # rev ops) = []" by simp
    ultimately show ?thesis by (simp only: rev_append rev.simps append_Nil2 append_assoc append_Cons append_Nil)
  next
    case False
    then obtain x where "x \<in> set (rev ts)" and "\<not> is_out x"
      by (auto simp: list_all_iff)
    then have "takeWhile is_out (rev ts @ t # rev ops) = takeWhile is_out (rev ts)"
      by (rule takeWhile_append1)
    then show ?thesis by simp
  qed
  with assms(2) show ?thesis by (simp add: last_group_line_def split: list.splits)
qed

lemma last_group_line_single:
  "\<not> is_out t \<Longrightarrow> last_group_line (ops @ [t]) = fst t"
  by (simp add: last_group_line_def)

lemma parse_loop_plain:
  assumes "list_all plain body" and "list_all is_out ops"
  shows "\<exists>ns. parse_loop ops body = Inr (ns, [])
           \<and> (ops @ body \<noteq> [] \<longrightarrow>
                ns \<noteq> [] \<and> nkind (last ns) \<noteq> End
                \<and> nline (last ns) = last_group_line (ops @ body))"
  using assms
proof (induction body arbitrary: ops)
  case Nil
  then show ?case
    by (cases ops) (auto simp: parse_loop.simps flush_def last_group_line_all_out)
next
  case (Cons t ts)
  obtain l k v where t: "t = (l, k, v)" by (cases t)
  from Cons.prems(1) have pl: "list_all plain ts" and pt: "plain t" by simp_all
  show ?case
  proof (cases "k \<in> OUT_TOKENS")
    case True
    with t have "is_out t" by (simp add: is_out_def)
    with Cons.prems(2) have "list_all is_out (ops @ [t])" by simp
    from Cons.IH [OF pl this] True t show ?thesis by (simp add: parse_loop.simps)
  next
    case False
    with t have nout: "\<not> is_out t" by (simp add: is_out_def)
    from pt t have nc: "k \<notin> COMPOUND_TOKENS" and ne: "k \<noteq> End" by (simp_all add: plain_def)
    from Cons.IH [OF pl, of "[]"] obtain ns where
      ns: "parse_loop [] ts = Inr (ns, [])" and
      rest: "ts \<noteq> [] \<longrightarrow> ns \<noteq> [] \<and> nkind (last ns) \<noteq> End \<and> nline (last ns) = last_group_line ts"
      by auto
    from False nc ne t ns
    have run: "parse_loop ops (t # ts) = Inr (flush ops @ Node l k (Leaf v) # ns, [])"
      by (simp add: parse_loop.simps)
    show ?thesis
    proof (cases "ts = []")
      case True
      with ns have "ns = []" by (simp add: parse_loop.simps flush_def)
      with run True ne nout t show ?thesis by (simp add: last_group_line_single)
    next
      case nonempty: False
      with rest have "ns \<noteq> []" and "nkind (last ns) \<noteq> End"
        and "nline (last ns) = last_group_line ts" by simp_all
      with run nonempty nout show ?thesis by (simp add: last_group_line_skip)
    qed
  qed
qed

lemma parse_loop_plain_prefix:
  assumes "list_all plain pre" and "\<And>ops. parse_loop ops rest = Inl e"
  shows "parse_loop ops (pre @ rest) = Inl e"
  using assms(1)
proof (induction pre arbitrary: ops)
  case Nil
  then show ?case by (simp add: assms(2))
next
  case (Cons t ts)
  obtain l k v where t: "t = (l, k, v)" by (cases t)
  from Cons.prems have "plain t" and pl: "list_all plain ts" by simp_all
  with t have "k \<notin> COMPOUND_TOKENS" and "k \<noteq> End"
    by (simp_all add: plain_def)
  moreover have "k \<notin> OUT_TOKENS \<or> k \<in> OUT_TOKENS" by simp
  ultimately show ?case using Cons.IH [OF pl] t by (auto simp: parse_loop.simps)
qed

text \<open>
  Claim C3 (as amended). Take a token stream in which a compound opener (a
  \<^verbatim>\<open>compound\<close> or \<^verbatim>\<open>def\<close> token) is followed by at least one token and by no
  \<^verbatim>\<open>end\<close>, and whose other tokens are output tokens and plain statements. Then
  \<^verbatim>\<open>parse_iter\<close> fails with the error \<^verbatim>\<open>Missing "end" statement\<close>, and the line it
  reports is the line of the last node grouped inside the unclosed block
  (\<open>last_group_line\<close>), not the line of the opener.
\<close>

theorem missing_end_line:
  assumes "list_all plain pre" and "list_all plain body" and "body \<noteq> []"
    and "token = Compound \<or> token = Def"
  shows "parse_iter (pre @ (ln, token, v) # body) = Inl (MissingEnd (last_group_line body))"
proof -
  from parse_loop_plain [OF assms(2), of "[]"] assms(3) obtain vals where
    vals: "parse_loop [] body = Inr (vals, [])" and "vals \<noteq> []" and "nkind (last vals) \<noteq> End"
    and "nline (last vals) = last_group_line body"
    by auto
  with assms(4) have "\<And>ops. parse_loop ops ((ln, token, v) # body)
      = Inl (MissingEnd (last_group_line body))"
    by (auto simp: parse_loop.simps OUT_TOKENS_def COMPOUND_TOKENS_def)
  with assms(1) have "parse_loop [] (pre @ (ln, token, v) # body)
      = Inl (MissingEnd (last_group_line body))"
    by (rule parse_loop_plain_prefix)
  then show ?thesis by (simp add: parse_iter_def)
qed

theorem missing_end_line_witness:
  \<open>Parser_tokenize (''{{ title }}'' @ [NL] @ ''%if true'' @ [NL] @ ''hello'' @ [NL] @ ''{{ x }}'')
     = Inr ([(1, Var, TStr ''title''), (1, Markup, TStr [NL])]
            @ (2, Compound, TStr ''if true'')
            # [(3, Markup, TStr (''hello'' @ [NL])), (4, Var, TStr ''x'')])
   \<and> parse_iter ([(1, Var, TStr ''title''), (1, Markup, TStr [NL])]
            @ (2, Compound, TStr ''if true'')
            # [(3, Markup, TStr (''hello'' @ [NL])), (4, Var, TStr ''x'')])
     = Inl (MissingEnd 3)\<close>
proof -
  have t: \<open>Parser_tokenize (''{{ title }}'' @ [NL] @ ''%if true'' @ [NL] @ ''hello'' @ [NL] @ ''{{ x }}'')
     = Inr ([(1, Var, TStr ''title''), (1, Markup, TStr [NL])]
            @ (2, Compound, TStr ''if true'')
            # [(3, Markup, TStr (''hello'' @ [NL])), (4, Var, TStr ''x'')])\<close>
    by code_simp
  have p1: "list_all plain [(1, Var, TStr ''title''), (1, Markup, TStr [NL])]"
    by (simp add: plain_def COMPOUND_TOKENS_def)
  have p2: "list_all plain [(3, Markup, TStr (''hello'' @ [NL])), (4, Var, TStr ''x'')]"
    by (simp add: plain_def COMPOUND_TOKENS_def)
  have l: "last_group_line [(3, Markup, TStr (''hello'' @ [NL])), (4, Var, TStr ''x'')] = 3"
    by (simp add: last_group_line_def is_out_def OUT_TOKENS_def)
  from missing_end_line [OF p1 p2, of Compound 2 "TStr ''if true''"] l t
  show ?thesis by simp
qed

text \<open>
  Claim C3 as stated fails. The template \<^verbatim>\<open>%if true\<close>, \<^verbatim>\<open>hello\<close> has its opener on
  line 1, and the error reports line 2, the line of the markup grouped in the block.
\<close>

theorem missing_end_line_not_opener:
  \<open>Parser_tokenize (''%if true'' @ [NL] @ ''hello'' @ [NL])
     = Inr [(1, Compound, TStr ''if true''), (2, Markup, TStr (''hello'' @ [NL]))]
   \<and> parse_source (''%if true'' @ [NL] @ ''hello'' @ [NL]) = Inl (MissingEnd 2)
   \<and> parse_source (''%if true'' @ [NL] @ ''hello'' @ [NL]) \<noteq> Inl (MissingEnd 1)\<close>
  by code_simp

subsection \<open>Filter chains\<close>

lemma split_on_no_sep: "c \<notin> set p \<Longrightarrow> split_on c p = [p]"
  by (induction p) auto

lemma split_on_append_sep: "c \<notin> set p \<Longrightarrow> split_on c (p @ c # r) = p # split_on c r"
  by (induction p) auto

lemma split_on_join:
  "\<forall>p \<in> set (v # fs). c \<notin> set p \<Longrightarrow> split_on c (join [c] (v # fs)) = v # fs"
proof (induction fs arbitrary: v)
  case Nil
  then show ?case by (simp add: split_on_no_sep)
next
  case (Cons f fs)
  from Cons.prems have "c \<notin> set v" and "\<forall>p \<in> set (f # fs). c \<notin> set p" by simp_all
  with Cons.IH [of f] show ?case by (simp add: split_on_append_sep)
qed

lemma var_code_chain:
  assumes "\<forall>p \<in> set (v # fs). CHR ''|'' \<notin> set p"
  shows "var_code dflt (join ''|'' (v # fs)) =
           (if fs \<noteq> [] \<and> strip (last fs) = ''n''
            then foldl apply_filter (strip v) (map strip (butlast fs))
            else foldl apply_filter (strip v) (map strip fs @ dflt))"
proof -
  from assms have "split_on (CHR ''|'') (join ''|'' (v # fs)) = v # fs"
    by (rule split_on_join)
  then show ?thesis
    by (cases "fs = []") (simp_all add: var_code_def Let_def last_map map_butlast)
qed

text \<open>
  Claim C5. For a variable expression \<^verbatim>\<open>v|f1|f2\<close> (the three parts have no bar), the
  code written is \<^verbatim>\<open>f2(f1(v))\<close> with the default filters applied around it, one after
  the other; if the last filter is \<^verbatim>\<open>n\<close>, the marker is dropped, the code is
  \<^verbatim>\<open>f1(v)\<close> and no default filter is applied. (Every part is stripped, and the filter
  \<^verbatim>\<open>e\<close> is written \<^verbatim>\<open>escape\<close>.)
\<close>

theorem filter_chain_left_to_right:
  assumes "CHR ''|'' \<notin> set v" and "CHR ''|'' \<notin> set f1" and "CHR ''|'' \<notin> set f2"
  shows "var_code dflt (v @ ''|'' @ f1 @ ''|'' @ f2) =
           (if strip f2 = ''n'' then apply_filter (strip v) (strip f1)
            else foldl apply_filter
                   (apply_filter (apply_filter (strip v) (strip f1)) (strip f2)) dflt)"
  using assms var_code_chain [of v "[f1, f2]" dflt] by simp

theorem filter_chain_left_to_right_witness:
  "var_code [''str''] ('' v '' @ ''|'' @ ''upper'' @ ''|'' @ ''e'') = ''str(escape(upper(v)))''
   \<and> var_code [''str''] (''v'' @ ''|'' @ ''upper'' @ ''|'' @ '' n '') = ''upper(v)''"
proof -
  have a: "CHR ''|'' \<notin> set '' v ''" "CHR ''|'' \<notin> set ''v''" "CHR ''|'' \<notin> set ''upper''"
    "CHR ''|'' \<notin> set ''e''" "CHR ''|'' \<notin> set '' n ''"
    by simp_all
  have s: "strip '' v '' = ''v''" "strip ''v'' = ''v''" "strip ''upper'' = ''upper''"
    "strip ''e'' = ''e''" "strip '' n '' = ''n''"
    by (simp_all add: strip_def lstrip_def rstrip_def py_space_def)
  from filter_chain_left_to_right [OF a(1) a(3) a(4), of "[''str'']"]
    filter_chain_left_to_right [OF a(2) a(3) a(5), of "[''str'']"] s
  show ?thesis by (simp add: apply_filter_def filters_get_def)
qed

subsection \<open>Loader and Engine\<close>

text \<open>The loader has its dictionary of templates and reads files. \<open>files\<close> stands for the
  file system: for a template name, the path \<^verbatim>\<open>os.path.join\<close> makes and the decoded
  text of the file, or nothing where \<^verbatim>\<open>open\<close> raises.\<close>

record loader =
  loader_templates :: "string \<rightharpoonup> string"
  files :: "string \<rightharpoonup> string \<times> string"

text \<open>\<^verbatim>\<open>Loader.load(name, source=None)\<close>. With no source and no name,
  \<^verbatim>\<open>os.path.join\<close> raises \<^verbatim>\<open>TypeError\<close>.\<close>

definition load :: "loader \<Rightarrow> string option \<Rightarrow> string option \<Rightarrow> error + string option \<times> string" where
  "load l name source =
     (case source of
        Some text \<Rightarrow> Inr (name, text)
      | None \<Rightarrow>
          (case name of
             None \<Rightarrow> Inl TypeError
           | Some n \<Rightarrow>
               (case loader_templates l n of
                  Some text \<Rightarrow> Inr (Some n, text)
                | None \<Rightarrow>
                    (case files l n of
                       Some (path, text) \<Rightarrow> Inr (Some path, text)
                     | None \<Rightarrow> Inl (NotFound n)))))"

text \<open>The keyword arguments \<^verbatim>\<open>**kwargs\<close> of \<^verbatim>\<open>get_template\<close> and
  \<^verbatim>\<open>compile_template\<close>: \<^verbatim>\<open>source\<close> and \<^verbatim>\<open>default_filters\<close>, each absent
  (\<open>None\<close>) or given (\<open>Some\<close>; the value given can be \<^verbatim>\<open>None\<close>).\<close>

record kwargs =
  kw_source :: "string option option"
  kw_default_filters :: "string list option option"

definition no_kwargs :: kwargs where
  "no_kwargs = \<lparr>kw_source = None, kw_default_filters = None\<rparr>"

text \<open>The truth value of the dictionary \<^verbatim>\<open>kwargs\<close>.\<close>

definition kwargs_given :: "kwargs \<Rightarrow> bool" where
  "kwargs_given kw = (kw_source kw \<noteq> None \<or> kw_default_filters kw \<noteq> None)"

text \<open>A \<^verbatim>\<open>Template\<close> object: its two slots, and \<open>oid\<close>, the identity of the object
  (the number of \<^verbatim>\<open>Template\<close> objects the engine had created before it).\<close>

record 'r template =
  tname :: "string option"
  render_template :: 'r
  oid :: nat

text \<open>The engine: the three caches, the default filters and the loader. \<open>created\<close>
  counts the \<^verbatim>\<open>Template\<close> objects created so far. \<open>'r\<close> is the type of a compiled
  render routine, \<open>'m\<close> the type of a module.\<close>

record ('r, 'm) engine =
  templates :: "string \<rightharpoonup> 'r template"
  renders :: "string \<rightharpoonup> 'r"
  modules :: "string \<rightharpoonup> 'm"
  engine_default_filters :: "string list"
  engine_loader :: loader
  created :: nat

text \<open>The host language: \<open>host_compile\<close> is \<^verbatim>\<open>BlockBuilder.compile_code\<close> (the
  built-in \<^verbatim>\<open>compile\<close> on the joined lines, with the file name and the line
  offset); \<open>exec_render\<close> is \<^verbatim>\<open>exec(compiled, self.global_vars, local_vars)\<close> followed
  by \<^verbatim>\<open>local_vars['render']\<close>; \<open>exec_module\<close> is the creation of the module object of
  the given name and \<^verbatim>\<open>exec(compiled, module.__dict__)\<close>, which gives the module as far
  as it was filled and the exception raised, if any. They are parameters of the
  model.\<close>

record ('c, 'r, 'm) host =
  host_compile :: "string \<Rightarrow> int \<Rightarrow> string list \<Rightarrow> error + 'c"
  exec_render :: "'c \<Rightarrow> error + 'r"
  exec_module :: "string \<Rightarrow> 'c \<Rightarrow> 'm \<times> error option"

text \<open>\<^verbatim>\<open>Engine.clear\<close>\<close>

definition clear :: "('r, 'm) engine \<Rightarrow> ('r, 'm) engine" where
  "clear e = e\<lparr>templates := Map.empty, renders := Map.empty, modules := Map.empty\<rparr>"

text \<open>\<^verbatim>\<open>Engine.__init__\<close> with a loader: empty caches, and \<^verbatim>\<open>str\<close> as the default
  filter.\<close>

definition Engine :: "loader \<Rightarrow> ('r, 'm) engine" where
  "Engine l =
     \<lparr>templates = Map.empty, renders = Map.empty, modules = Map.empty,
      engine_default_filters = [''str''], engine_loader = l, created = 0\<rparr>"

text \<open>\<^verbatim>\<open>Engine.remove\<close>. \<^verbatim>\<open>del self.templates[name]\<close> raises \<^verbatim>\<open>KeyError\<close> for a
  missing key.\<close>

definition remove :: "('r, 'm) engine \<Rightarrow> string \<Rightarrow> error option \<times> ('r, 'm) engine" where
  "remove e name =
     (if name \<in> dom (renders e) then
        (if name \<in> dom (templates e) then
           (let e1 = e\<lparr>templates := (templates e)(name := None),
                       renders := (renders e)(name := None)\<rparr>
            in (None, if name \<in> dom (modules e1)
                      then e1\<lparr>modules := (modules e1)(name := None)\<rparr> else e1))
         else (Some (KeyError name), e))
      else (None, if name \<in> dom (modules e)
                  then e\<lparr>modules := (modules e)(name := None)\<rparr> else e))"

text \<open>\<^verbatim>\<open>Engine.load_and_parse\<close>: the path, the nodes and the filters. The nodes are a
  generator in the source; its error, if any, is raised where \<^verbatim>\<open>compile_template\<close> and
  \<^verbatim>\<open>compile_import\<close> read it, before anything else happens there.\<close>

definition load_and_parse ::
  "('r, 'm) engine \<Rightarrow> string option \<Rightarrow> kwargs
     \<Rightarrow> error + string option \<times> node list \<times> string list option" where
  "load_and_parse e name kw =
     (let filters = (case kw_default_filters kw of
                       None \<Rightarrow> Some (engine_default_filters e)
                     | Some f \<Rightarrow> f)
      in case load (engine_loader e) name (case kw_source kw of None \<Rightarrow> None | Some s \<Rightarrow> s) of
           Inl err \<Rightarrow> Inl err
         | Inr (path, template_source) \<Rightarrow>
             (case parse_source template_source of
                Inl err \<Rightarrow> Inl err
              | Inr nodes \<Rightarrow> Inr (path, nodes, filters)))"

text \<open>\<^verbatim>\<open>BlockBuilder(lineno=-2, nodes=nodes, default_filters=filters)\<close>\<close>

definition BlockBuilder :: "int \<Rightarrow> node list \<Rightarrow> string list option \<Rightarrow> error + builder" where
  "BlockBuilder ln nodes filters =
     build_block nodes
       \<lparr>lines = [], indent = [], lineno = ln, offset = ln, local_vars = {},
        default_filters = (case filters of None \<Rightarrow> [] | Some f \<Rightarrow> f)\<rparr>"

definition def_render :: string where
  "def_render = ''def render(ctx, local_defs, super_defs):''"

text \<open>The part of \<^verbatim>\<open>compile_template\<close> from \<^verbatim>\<open>load_and_parse\<close> to the built source:
  the path and the builder.\<close>

definition template_source ::
  "('r, 'm) engine \<Rightarrow> string option \<Rightarrow> kwargs \<Rightarrow> error + string option \<times> builder" where
  "template_source e name kw =
     (case load_and_parse e name kw of
        Inl err \<Rightarrow> Inl err
      | Inr (path, nodes, filters) \<Rightarrow>
          (case BlockBuilder (- 2)
                  [Node (- 1) Compound (Block (TStr def_render) [Node 0 Render (Nodes nodes)])]
                  filters of
             Inl err \<Rightarrow> Inl err
           | Inr b \<Rightarrow> Inr (path, b)))"

text \<open>The same part of \<^verbatim>\<open>compile_import\<close>.\<close>

definition import_source ::
  "('r, 'm) engine \<Rightarrow> string option \<Rightarrow> kwargs \<Rightarrow> error + string option \<times> builder" where
  "import_source e name kw =
     (case load_and_parse e name kw of
        Inl err \<Rightarrow> Inl err
      | Inr (path, nodes, filters) \<Rightarrow>
          (case BlockBuilder (- 2)
                  (Node (- 1) Statement (Leaf (TStr ''local_defs = {}; super_defs = {}''))
                     # filter (\<lambda>n. nkind n = Def) nodes)
                  filters of
             Inl err \<Rightarrow> Inl err
           | Inr b \<Rightarrow> Inr (path, b)))"

text \<open>\<^verbatim>\<open>Engine.compile_template\<close>. \<open>template_routine\<close> is the part between the look
  into the cache and the creation of the \<^verbatim>\<open>Template\<close>: the source is built, compiled
  under the name \<^verbatim>\<open>path or '<string>'\<close> and executed, and \<^verbatim>\<open>local_vars['render']\<close>
  is the routine. The result of \<open>compile_template\<close> is what the call returns or raises,
  and the engine after the call.\<close>

definition template_routine ::
  "('c, 'r, 'm) host \<Rightarrow> ('r, 'm) engine \<Rightarrow> string option \<Rightarrow> kwargs \<Rightarrow> error + 'r" where
  "template_routine h e name kw =
     (case template_source e name kw of
        Inl err \<Rightarrow> Inl err
      | Inr (path, b) \<Rightarrow>
          (case host_compile h
                  (case path of None \<Rightarrow> ''<string>''
                   | Some p \<Rightarrow> if p = [] then ''<string>'' else p)
                  (offset b) (lines b) of
             Inl err \<Rightarrow> Inl err
           | Inr compiled \<Rightarrow> exec_render h compiled))"

definition compile_template ::
  "('c, 'r, 'm) host \<Rightarrow> ('r, 'm) engine \<Rightarrow> string option \<Rightarrow> kwargs
     \<Rightarrow> (error + 'r template) \<times> ('r, 'm) engine" where
  "compile_template h e name kw =
     (case (case name of None \<Rightarrow> None | Some n \<Rightarrow> templates e n) of
        Some t \<Rightarrow> (Inr t, e)
      | None \<Rightarrow>
          (case template_routine h e name kw of
             Inl err \<Rightarrow> (Inl err, e)
           | Inr r \<Rightarrow>
               (let t = \<lparr>tname = name, render_template = r, oid = created e\<rparr>;
                    e1 = e\<lparr>created := Suc (created e)\<rparr>
                in case name of
                     None \<Rightarrow> (Inr t, e1)
                   | Some n \<Rightarrow>
                       if n = [] then (Inr t, e1)
                       else (Inr t, e1\<lparr>templates := (templates e1)(n \<mapsto> t),
                                       renders := (renders e1)(n \<mapsto> r)\<rparr>))))"

text \<open>\<^verbatim>\<open>Engine.compile_import\<close>. \<open>import_compiled\<close> is the part up to
  \<^verbatim>\<open>source.compile_code(path)\<close>; a path that is \<^verbatim>\<open>None\<close> is a \<^verbatim>\<open>TypeError\<close> of
  \<^verbatim>\<open>compile\<close>, a name that is \<^verbatim>\<open>None\<close> one of the module constructor. The module is
  put into the cache before its code is executed.\<close>

definition import_compiled ::
  "('c, 'r, 'm) host \<Rightarrow> ('r, 'm) engine \<Rightarrow> string option \<Rightarrow> kwargs \<Rightarrow> error + 'c" where
  "import_compiled h e name kw =
     (case import_source e name kw of
        Inl err \<Rightarrow> Inl err
      | Inr (path, b) \<Rightarrow>
          (case path of
             None \<Rightarrow> Inl TypeError
           | Some p \<Rightarrow> host_compile h p (offset b) (lines b)))"

definition compile_import ::
  "('c, 'r, 'm) host \<Rightarrow> ('r, 'm) engine \<Rightarrow> string option \<Rightarrow> kwargs
     \<Rightarrow> error option \<times> ('r, 'm) engine" where
  "compile_import h e name kw =
     (if (case name of None \<Rightarrow> False | Some n \<Rightarrow> n \<in> dom (modules e)) then (None, e)
      else
        (case import_compiled h e name kw of
           Inl err \<Rightarrow> (Some err, e)
         | Inr compiled \<Rightarrow>
             (case name of
                None \<Rightarrow> (Some TypeError, e)
              | Some n \<Rightarrow>
                  (case exec_module h n compiled of
                     (m, err) \<Rightarrow> (err, e\<lparr>modules := (modules e)(n \<mapsto> m)\<rparr>)))))"

text \<open>\<^verbatim>\<open>Engine.get_template\<close>\<close>

definition get_template ::
  "('c, 'r, 'm) host \<Rightarrow> ('r, 'm) engine \<Rightarrow> string option \<Rightarrow> kwargs
     \<Rightarrow> (error + 'r template) \<times> ('r, 'm) engine" where
  "get_template h e name kw =
     (case (if name \<noteq> None \<and> name \<noteq> Some [] \<and> kwargs_given kw
            then remove e (the name) else (None, e)) of
        (Some err, e1) \<Rightarrow> (Inl err, e1)
      | (None, e1) \<Rightarrow>
          (case (case name of None \<Rightarrow> None | Some n \<Rightarrow> templates e1 n) of
             Some t \<Rightarrow> (Inr t, e1)
           | None \<Rightarrow> compile_template h e1 name kw))"

text \<open>\<^verbatim>\<open>Engine.import_name\<close>\<close>

definition import_name ::
  "('c, 'r, 'm) host \<Rightarrow> ('r, 'm) engine \<Rightarrow> string \<Rightarrow> kwargs
     \<Rightarrow> (error + 'm) \<times> ('r, 'm) engine" where
  "import_name h e name kw =
     (case modules e name of
        Some m \<Rightarrow> (Inr m, e)
      | None \<Rightarrow>
          (case compile_import h e (Some name) kw of
             (Some err, e1) \<Rightarrow> (Inl err, e1)
           | (None, e1) \<Rightarrow>
               (case modules e1 name of
                  Some m \<Rightarrow> (Inr m, e1)
                | None \<Rightarrow> (Inl (KeyError name), e1))))"

text \<open>\<^verbatim>\<open>Engine.render\<close>. \<open>invoke r e w\<close> is the call
  \<^verbatim>\<open>r(ctx, local_defs, super_defs)\<close> of a render routine: \<open>w\<close> stands for the three
  arguments (mutable objects, shared with the caller), and the call gives the result or
  the exception, the engine and the arguments as the call left them. The \<^verbatim>\<open>try\<close> block
  holds the lookup and the call, so the \<^verbatim>\<open>except KeyError\<close> clause also takes a
  \<^verbatim>\<open>KeyError\<close> that the routine raises.\<close>

definition render_second ::
  "('r \<Rightarrow> ('r, 'm) engine \<Rightarrow> 'w \<Rightarrow> (error + string) \<times> ('r, 'm) engine \<times> 'w)
     \<Rightarrow> ('r, 'm) engine \<Rightarrow> string \<Rightarrow> 'w \<Rightarrow> (error + string) \<times> ('r, 'm) engine \<times> 'w" where
  "render_second invoke e name w =
     (case renders e name of
        None \<Rightarrow> (Inl (KeyError name), e, w)
      | Some r \<Rightarrow> invoke r e w)"

definition render ::
  "('r \<Rightarrow> ('r, 'm) engine \<Rightarrow> 'w \<Rightarrow> (error + string) \<times> ('r, 'm) engine \<times> 'w)
     \<Rightarrow> ('c, 'r, 'm) host \<Rightarrow> ('r, 'm) engine \<Rightarrow> string \<Rightarrow> 'w
     \<Rightarrow> (error + string) \<times> ('r, 'm) engine \<times> 'w" where
  "render invoke h e name w =
     (case renders e name of
        None \<Rightarrow>
          (case compile_template h e (Some name) no_kwargs of
             (Inl err, e1) \<Rightarrow> (Inl err, e1, w)
           | (Inr t, e1) \<Rightarrow> render_second invoke e1 name w)
      | Some r \<Rightarrow>
          (case invoke r e w of
             (Inl (KeyError k), e1, w1) \<Rightarrow>
               (case compile_template h e1 (Some name) no_kwargs of
                  (Inl err, e2) \<Rightarrow> (Inl err, e2, w1)
                | (Inr t, e2) \<Rightarrow> render_second invoke e2 name w1)
           | res \<Rightarrow> res))"

text \<open>\<^verbatim>\<open>Template.render\<close>: nothing is caught.\<close>

definition Template_render ::
  "('r \<Rightarrow> ('r, 'm) engine \<Rightarrow> 'w \<Rightarrow> (error + string) \<times> ('r, 'm) engine \<times> 'w)
     \<Rightarrow> 'r template \<Rightarrow> ('r, 'm) engine \<Rightarrow> 'w \<Rightarrow> (error + string) \<times> ('r, 'm) engine \<times> 'w" where
  "Template_render invoke t e w = invoke (render_template t) e w"

subsection \<open>Failed compilations and the caches\<close>

text \<open>A host for closed examples: the compiled code and the routine are the lines
  themselves.\<close>

definition lines_host :: "(string list, string list, string list) host" where
  "lines_host =
     \<lparr>host_compile = (\<lambda>name off ls. Inr ls),
      exec_render = (\<lambda>c. Inr c),
      exec_module = (\<lambda>name c. (c, None))\<rparr>"

definition dict_loader :: "(string \<times> string) list \<Rightarrow> loader" where
  "dict_loader ts = \<lparr>loader_templates = map_of ts, files = Map.empty\<rparr>"

text \<open>
  Claim C8. If \<^verbatim>\<open>compile_template\<close> raises, at whatever stage (loading, tokenizing,
  grouping, code generation, compiling the generated source, or executing it), the engine
  is exactly as it was before the call. If \<^verbatim>\<open>compile_import\<close> fails at a stage up to
  the compilation of the generated source, it raises that error and the engine is
  exactly as it was before the call.
\<close>

theorem failed_compile_keeps_caches:
  "(\<forall>err e'. compile_template h e name kw = (Inl err, e') \<longrightarrow> e' = e)
   \<and> (\<forall>err. import_compiled h e name kw = Inl err \<longrightarrow>
          snd (compile_import h e name kw) = e
          \<and> (name \<notin> Some ` dom (modules e) \<longrightarrow> fst (compile_import h e name kw) = Some err))"
proof (intro conjI allI impI)
  fix err e'
  assume "compile_template h e name kw = (Inl err, e')"
  then show "e' = e"
    by (auto simp: compile_template_def Let_def
        split: option.splits sum.splits prod.splits if_splits)
next
  fix err
  assume "import_compiled h e name kw = Inl err"
  then show "snd (compile_import h e name kw) = e"
    by (simp add: compile_import_def)
next
  fix err
  assume "import_compiled h e name kw = Inl err" and "name \<notin> Some ` dom (modules e)"
  then show "fst (compile_import h e name kw) = Some err"
    by (auto simp: compile_import_def split: option.splits)
qed

theorem failed_compile_keeps_caches_witness:
  \<open>compile_template lines_host
      (Engine (dict_loader [(''bad'', ''%if true'' @ [NL] @ ''hello'' @ [NL])]))
      (Some ''bad'') no_kwargs
    = (Inl (MissingEnd 2), Engine (dict_loader [(''bad'', ''%if true'' @ [NL] @ ''hello'' @ [NL])]))
   \<and> compile_import lines_host
      (Engine (dict_loader [(''bad'', ''%if true'' @ [NL] @ ''hello'' @ [NL])]))
      (Some ''bad'') no_kwargs
    = (Some (MissingEnd 2), Engine (dict_loader [(''bad'', ''%if true'' @ [NL] @ ''hello'' @ [NL])]))\<close>
proof -
  let ?e = \<open>Engine (dict_loader [(''bad'', ''%if true'' @ [NL] @ ''hello'' @ [NL])])
              :: (string list, string list) engine\<close>
  have p: \<open>parse_source (''%if true'' @ [NL] @ ''hello'' @ [NL]) = Inl (MissingEnd 2)\<close>
    by code_simp
  have ld: "load_and_parse ?e (Some ''bad'') no_kwargs = Inl (MissingEnd 2)"
    using p by (simp add: load_and_parse_def load_def Engine_def dict_loader_def no_kwargs_def)
  have t: "fst (compile_template lines_host ?e (Some ''bad'') no_kwargs) = Inl (MissingEnd 2)"
    using ld by (simp add: compile_template_def template_routine_def template_source_def Engine_def)
  have i: "import_compiled lines_host ?e (Some ''bad'') no_kwargs = Inl (MissingEnd 2)"
    using ld by (simp add: import_compiled_def import_source_def)
  have m: "Some ''bad'' \<notin> Some ` dom (modules ?e)" by (simp add: Engine_def)
  from failed_compile_keeps_caches [of lines_host ?e "Some ''bad''" no_kwargs] t i m
  show ?thesis by (metis prod.collapse)
qed

subsection \<open>The cache of compiled templates\<close>

lemma get_template_no_kwargs:
  "get_template h e (Some n) no_kwargs =
     (case templates e n of
        Some t \<Rightarrow> (Inr t, e)
      | None \<Rightarrow> compile_template h e (Some n) no_kwargs)"
proof -
  have "\<not> kwargs_given no_kwargs" by (simp add: kwargs_given_def no_kwargs_def)
  then show ?thesis by (simp add: get_template_def)
qed

lemma compile_template_uncached:
  assumes "templates e n = None" and "n \<noteq> []"
  shows "compile_template h e (Some n) kw =
           (case template_routine h e (Some n) kw of
              Inl err \<Rightarrow> (Inl err, e)
            | Inr r \<Rightarrow>
                (Inr \<lparr>tname = Some n, render_template = r, oid = created e\<rparr>,
                 e\<lparr>created := Suc (created e),
                   templates := (templates e)(n \<mapsto> \<lparr>tname = Some n, render_template = r,
                                                      oid = created e\<rparr>),
                   renders := (renders e)(n \<mapsto> r)\<rparr>))"
  using assms by (simp add: compile_template_def Let_def split: sum.splits)

lemma template_routine_loader:
  assumes "engine_loader e' = engine_loader e"
    and "engine_default_filters e' = engine_default_filters e"
  shows "template_routine h e' name kw = template_routine h e name kw"
proof -
  have "load_and_parse e' name kw = load_and_parse e name kw"
    unfolding load_and_parse_def assms by (rule refl)
  then show ?thesis by (simp add: template_routine_def template_source_def)
qed

lemma remove_cached:
  assumes "templates e n = Some t" and "dom (templates e) = dom (renders e)"
  shows "\<exists>e2. remove e n = (None, e2) \<and> templates e2 n = None \<and> created e2 = created e
           \<and> engine_loader e2 = engine_loader e
           \<and> engine_default_filters e2 = engine_default_filters e"
proof -
  from assms have "n \<in> dom (renders e)" and "n \<in> dom (templates e)" by auto
  then show ?thesis by (simp add: remove_def Let_def)
qed

lemma get_template_result_cached:
  assumes "n \<noteq> []" and "get_template h e (Some n) no_kwargs = (Inr t, e1)"
  shows "templates e1 n = Some t"
proof (cases "templates e n")
  case (Some t')
  with assms(2) show ?thesis by (simp add: get_template_no_kwargs)
next
  case None
  with assms show ?thesis
    by (auto simp: get_template_no_kwargs compile_template_uncached split: sum.splits)
qed

lemma get_template_keeps_dom:
  assumes "n \<noteq> []" and "get_template h e (Some n) no_kwargs = (Inr t, e1)"
    and "dom (templates e) = dom (renders e)"
  shows "dom (templates e1) = dom (renders e1)"
proof (cases "templates e n")
  case (Some t')
  with assms(2,3) show ?thesis by (simp add: get_template_no_kwargs)
next
  case None
  with assms(1,2) obtain r where
    "e1 = e\<lparr>created := Suc (created e),
              templates := (templates e)(n \<mapsto> t), renders := (renders e)(n \<mapsto> r)\<rparr>"
    by (auto simp: get_template_no_kwargs compile_template_uncached split: sum.splits)
  with assms(3) show ?thesis by simp
qed

text \<open>
  Claim C6 (as amended). Let \<open>n\<close> be a non-empty template name and let the first call
  \<^verbatim>\<open>get_template(n)\<close> return the template \<open>t\<close>, in an engine whose caches
  \<^verbatim>\<open>templates\<close> and \<^verbatim>\<open>renders\<close> have the same names. Then a second call with no
  options returns the same object \<open>t\<close> and leaves the engine as it is (nothing is
  compiled). \<^verbatim>\<open>remove(n)\<close> succeeds and takes the name out of the cache, and a
  \<^verbatim>\<open>get_template(n)\<close> after it compiles at most once: if it raises, the engine is
  unchanged; if it returns, exactly one new \<^verbatim>\<open>Template\<close> object has been created, it
  is the one returned, and it is in the cache. If the first call had compiled the
  template, the call after \<^verbatim>\<open>remove\<close> returns a template with the same routine.
\<close>

theorem cached_template_reused:
  assumes "n \<noteq> []" and "dom (templates e) = dom (renders e)"
    and "get_template h e (Some n) no_kwargs = (Inr t, e1)"
  shows "get_template h e1 (Some n) no_kwargs = (Inr t, e1)
    \<and> (\<exists>e2. remove e1 n = (None, e2) \<and> templates e2 n = None \<and> created e2 = created e1
          \<and> (\<forall>res e3. get_template h e2 (Some n) no_kwargs = (res, e3) \<longrightarrow>
                (case res of
                   Inl err \<Rightarrow> e3 = e2
                 | Inr t2 \<Rightarrow>
                     oid t2 = created e1 \<and> created e3 = Suc (created e1)
                     \<and> templates e3 n = Some t2
                     \<and> get_template h e3 (Some n) no_kwargs = (Inr t2, e3)))
          \<and> (templates e n = None \<longrightarrow>
                (\<exists>t2 e3. get_template h e2 (Some n) no_kwargs = (Inr t2, e3)
                   \<and> render_template t2 = render_template t)))"
proof -
  from assms(1,3) have cached: "templates e1 n = Some t" by (rule get_template_result_cached)
  then have a: "get_template h e1 (Some n) no_kwargs = (Inr t, e1)"
    by (simp add: get_template_no_kwargs)
  from assms(1,3,2) have "dom (templates e1) = dom (renders e1)" by (rule get_template_keeps_dom)
  with cached obtain e2 where e2: "remove e1 n = (None, e2)" "templates e2 n = None"
    "created e2 = created e1" "engine_loader e2 = engine_loader e1"
    "engine_default_filters e2 = engine_default_filters e1"
    using remove_cached by blast
  have b: "\<forall>res e3. get_template h e2 (Some n) no_kwargs = (res, e3) \<longrightarrow>
                (case res of
                   Inl err \<Rightarrow> e3 = e2
                 | Inr t2 \<Rightarrow>
                     oid t2 = created e1 \<and> created e3 = Suc (created e1)
                     \<and> templates e3 n = Some t2
                     \<and> get_template h e3 (Some n) no_kwargs = (Inr t2, e3))"
    using e2(2,3) assms(1)
    by (auto simp: get_template_no_kwargs compile_template_uncached split: sum.splits)
  have c: "\<exists>t2 e3. get_template h e2 (Some n) no_kwargs = (Inr t2, e3)
                   \<and> render_template t2 = render_template t" if un: "templates e n = None"
  proof -
    from un assms(1,3) obtain r where
      r: "template_routine h e (Some n) no_kwargs = Inr r" and
      t: "t = \<lparr>tname = Some n, render_template = r, oid = created e\<rparr>" and
      e1: "e1 = e\<lparr>created := Suc (created e),
                   templates := (templates e)(n \<mapsto> t), renders := (renders e)(n \<mapsto> r)\<rparr>"
      by (auto simp: get_template_no_kwargs compile_template_uncached split: sum.splits)
    from e1 e2(4,5) have "template_routine h e2 (Some n) no_kwargs
        = template_routine h e (Some n) no_kwargs"
      by (intro template_routine_loader) simp_all
    with r e2(2) assms(1) t show ?thesis
      by (simp add: get_template_no_kwargs compile_template_uncached)
  qed
  from c have c': "templates e n = None \<longrightarrow>
      (\<exists>t2 e3. get_template h e2 (Some n) no_kwargs = (Inr t2, e3)
                   \<and> render_template t2 = render_template t)"
    by (rule impI)
  show ?thesis
    by (intro conjI exI [of _ e2]) (rule a e2(1) e2(2) e2(3) b c')+
qed

theorem cached_template_reused_witness:
  \<open>get_template lines_host (Engine (dict_loader [(''page'', ''Hello'')])) (Some ''page'') no_kwargs
     = (Inr \<lparr>tname = Some ''page'',
             render_template = [def_render, [], ''    return '' @ [SQ] @ ''Hello'' @ [SQ]],
             oid = 0\<rparr>,
        snd (get_template lines_host (Engine (dict_loader [(''page'', ''Hello'')]))
               (Some ''page'') no_kwargs))
   \<and> get_template lines_host
        (snd (get_template lines_host (Engine (dict_loader [(''page'', ''Hello'')]))
               (Some ''page'') no_kwargs))
        (Some ''page'') no_kwargs
     = (Inr \<lparr>tname = Some ''page'',
             render_template = [def_render, [], ''    return '' @ [SQ] @ ''Hello'' @ [SQ]],
             oid = 0\<rparr>,
        snd (get_template lines_host (Engine (dict_loader [(''page'', ''Hello'')]))
               (Some ''page'') no_kwargs))\<close>
proof -
  let ?e = \<open>Engine (dict_loader [(''page'', ''Hello'')]) :: (string list, string list) engine\<close>
  let ?t = \<open>\<lparr>tname = Some ''page'',
             render_template = [def_render, [], ''    return '' @ [SQ] @ ''Hello'' @ [SQ]],
             oid = 0\<rparr>\<close>
  have p: \<open>parse_source ''Hello'' = Inr [Node 1 Out (Ops [(1, Markup, TStr ''Hello'')])]\<close>
    by code_simp
  have b: \<open>BlockBuilder (- 2)
      [Node (- 1) Compound (Block (TStr def_render)
         [Node 0 Render (Nodes [Node 1 Out (Ops [(1, Markup, TStr ''Hello'')])])])]
      (Some [''str''])
    = Inr \<lparr>lines = [def_render, [], ''    return '' @ [SQ] @ ''Hello'' @ [SQ]], indent = [],
           lineno = 1, offset = - 2, local_vars = {}, default_filters = [''str'']\<rparr>\<close>
    by code_simp
  have r: "template_routine lines_host ?e (Some ''page'') no_kwargs
      = Inr [def_render, [], ''    return '' @ [SQ] @ ''Hello'' @ [SQ]]"
    using p b
    by (simp add: template_routine_def template_source_def load_and_parse_def load_def
        Engine_def dict_loader_def no_kwargs_def lines_host_def)
  have f: "fst (get_template lines_host ?e (Some ''page'') no_kwargs) = Inr ?t"
    using r by (simp add: get_template_no_kwargs compile_template_uncached Engine_def)
  then have g: "get_template lines_host ?e (Some ''page'') no_kwargs
      = (Inr ?t, snd (get_template lines_host ?e (Some ''page'') no_kwargs))"
    by (metis prod.collapse)
  have n: "''page'' \<noteq> []" by simp
  have d: "dom (templates ?e) = dom (renders ?e)" by (simp add: Engine_def)
  from cached_template_reused [OF n d g] g show ?thesis by simp
qed

text \<open>
  Claim C6 as stated fails for the empty name, which is not \<^verbatim>\<open>None\<close>:
  \<^verbatim>\<open>compile_template\<close> caches a template only \<^verbatim>\<open>if name\<close>, so the second call
  compiles again and returns another object.
\<close>

theorem empty_name_not_cached:
  \<open>fst (get_template lines_host (Engine (dict_loader [([], ''Hello'')])) (Some []) no_kwargs)
     = Inr \<lparr>tname = Some [],
             render_template = [def_render, [], ''    return '' @ [SQ] @ ''Hello'' @ [SQ]],
             oid = 0\<rparr>
   \<and> fst (get_template lines_host
        (snd (get_template lines_host (Engine (dict_loader [([], ''Hello'')])) (Some []) no_kwargs))
        (Some []) no_kwargs)
     = Inr \<lparr>tname = Some [],
             render_template = [def_render, [], ''    return '' @ [SQ] @ ''Hello'' @ [SQ]],
             oid = 1\<rparr>\<close>
proof -
  let ?e = \<open>Engine (dict_loader [([], ''Hello'')]) :: (string list, string list) engine\<close>
  have p: \<open>parse_source ''Hello'' = Inr [Node 1 Out (Ops [(1, Markup, TStr ''Hello'')])]\<close>
    by code_simp
  have b: \<open>BlockBuilder (- 2)
      [Node (- 1) Compound (Block (TStr def_render)
         [Node 0 Render (Nodes [Node 1 Out (Ops [(1, Markup, TStr ''Hello'')])])])]
      (Some [''str''])
    = Inr \<lparr>lines = [def_render, [], ''    return '' @ [SQ] @ ''Hello'' @ [SQ]], indent = [],
           lineno = 1, offset = - 2, local_vars = {}, default_filters = [''str'']\<rparr>\<close>
    by code_simp
  have r: "\<And>e :: (string list, string list) engine. engine_loader e = dict_loader [([], ''Hello'')]
      \<Longrightarrow> engine_default_filters e = [''str'']
      \<Longrightarrow> template_routine lines_host e (Some []) no_kwargs
      = Inr [def_render, [], ''    return '' @ [SQ] @ ''Hello'' @ [SQ]]"
    using p b
    by (simp add: template_routine_def template_source_def load_and_parse_def load_def
        dict_loader_def no_kwargs_def lines_host_def)
  show ?thesis
    by (simp add: get_template_def kwargs_given_def no_kwargs_def [symmetric]
        compile_template_def r Engine_def Let_def)
qed

subsection \<open>The lines of a routine\<close>

text \<open>The lines \<^verbatim>\<open>compile_template\<close> builds for a template source, with the given
  default filters.\<close>

definition source_lines :: "string list option \<Rightarrow> string \<Rightarrow> error + string list" where
  "source_lines filters src =
     (case parse_source src of
        Inl err \<Rightarrow> Inl err
      | Inr nodes \<Rightarrow>
          (case BlockBuilder (- 2)
                  [Node (- 1) Compound (Block (TStr def_render) [Node 0 Render (Nodes nodes)])]
                  filters of
             Inl err \<Rightarrow> Inl err
           | Inr b \<Rightarrow> Inr (lines b)))"

lemma template_routine_lines_host:
  assumes "load (engine_loader e) name (case kw_source kw of None \<Rightarrow> None | Some s \<Rightarrow> s)
             = Inr (path, src)"
  shows "template_routine lines_host e name kw =
           source_lines (case kw_default_filters kw of
                           None \<Rightarrow> Some (engine_default_filters e) | Some f \<Rightarrow> f) src"
  using assms
  by (simp add: template_routine_def template_source_def load_and_parse_def source_lines_def
      lines_host_def split: sum.splits)

subsection \<open>Errors of a render routine in Engine.render\<close>

text \<open>An exception of the routine that is not a \<^verbatim>\<open>KeyError\<close> leaves \<^verbatim>\<open>Engine.render\<close>
  as it is, and so does every exception in \<^verbatim>\<open>Template.render\<close>.\<close>

lemma render_propagates_other_errors:
  assumes "renders e name = Some r" and "invoke r e w = (Inl err, e1, w1)"
    and "\<forall>k. err \<noteq> KeyError k"
  shows "render invoke h e name w = (Inl err, e1, w1)"
  using assms by (cases err) (simp_all add: render_def)

lemma render_retries_after_KeyError:
  assumes "renders e name = Some r" and "invoke r e w = (Inl (KeyError k), e1, w1)"
    and "templates e1 name = Some t"
  shows "render invoke h e name w = render_second invoke e1 name w1"
  using assms by (simp add: render_def compile_template_def)

text \<open>The arguments of a render routine: the context and the two tables of definitions,
  here with strings as values.\<close>

record world =
  ctx :: "string \<rightharpoonup> string"
  local_defs :: "string \<rightharpoonup> string"
  super_defs :: "string \<rightharpoonup> string"

text \<open>A template that marks \<^verbatim>\<open>local_defs\<close> on its first run and then reads a key
  that the context does not have:
  \<^verbatim>\<open>%if 'k' not in local_defs:\<close>, \<^verbatim>\<open>%local_defs['k'] = 1\<close>, \<^verbatim>\<open>{{ ctx['missing'] }}\<close>,
  \<^verbatim>\<open>%endif\<close>, \<^verbatim>\<open>OK\<close>. \<open>run_marking\<close> is what a call of its routine does: the
  subscription \<^verbatim>\<open>ctx['missing']\<close> raises \<^verbatim>\<open>KeyError\<close> after the assignment to
  \<^verbatim>\<open>local_defs['k']\<close>.\<close>

definition marking_template :: string where
  \<open>marking_template =
     ''%if 'k' not in local_defs:'' @ [NL] @ ''%local_defs['k'] = 1'' @ [NL]
     @ ''{{ ctx['missing'] }}'' @ [NL] @ ''%endif'' @ [NL] @ ''OK''\<close>

definition run_marking ::
  "string list \<Rightarrow> (string list, 'm) engine \<Rightarrow> world
     \<Rightarrow> (error + string) \<times> (string list, 'm) engine \<times> world" where
  "run_marking r e w =
     (if ''k'' \<notin> dom (local_defs w) then
        (case ctx w ''missing'' of
           None \<Rightarrow> (Inl (KeyError ''missing''), e, w\<lparr>local_defs := (local_defs w)(''k'' \<mapsto> ''1'')\<rparr>)
         | Some v \<Rightarrow> (Inr (v @ [NL] @ ''OK''), e, w\<lparr>local_defs := (local_defs w)(''k'' \<mapsto> ''1'')\<rparr>))
      else (Inr ''OK'', e, w))"

text \<open>
  Claim C7 fails on the code. The template above is compiled and cached under the name
  \<^verbatim>\<open>inc\<close>, and rendered with an empty context. \<^verbatim>\<open>Template.render\<close> raises the
  \<^verbatim>\<open>KeyError\<close> of the routine. \<^verbatim>\<open>Engine.render\<close> (the path of \<^verbatim>\<open>include\<close> and
  \<^verbatim>\<open>extends\<close>) catches it, calls the routine a second time on the same arguments, and
  returns \<^verbatim>\<open>OK\<close>: the error of the first call is suppressed.
\<close>

theorem render_catches_routine_KeyError:
  \<open>template_routine lines_host (Engine (dict_loader [(''inc'', marking_template)]))
       (Some ''inc'') no_kwargs
     = Inr [def_render,
            ''    _b = []; w = _b.append'',
            ''    if 'k' not in local_defs:'',
            ''        local_defs['k'] = 1'',
            ''        w(str(ctx['missing'])); w('' @ [SQ, BSL] @ ''n'' @ [SQ] @ '')'',
            [],
            ''    w('OK')'',
            ''    return "".join(_b)'']
   \<and> fst (Template_render run_marking
        (the (templates (snd (get_template lines_host
            (Engine (dict_loader [(''inc'', marking_template)])) (Some ''inc'') no_kwargs)) ''inc''))
        (snd (get_template lines_host
            (Engine (dict_loader [(''inc'', marking_template)])) (Some ''inc'') no_kwargs))
        \<lparr>ctx = Map.empty, local_defs = Map.empty, super_defs = Map.empty\<rparr>)
     = Inl (KeyError ''missing'')
   \<and> fst (render run_marking lines_host
        (snd (get_template lines_host
            (Engine (dict_loader [(''inc'', marking_template)])) (Some ''inc'') no_kwargs))
        ''inc'' \<lparr>ctx = Map.empty, local_defs = Map.empty, super_defs = Map.empty\<rparr>)
     = Inr ''OK''\<close>
proof -
  let ?e = \<open>Engine (dict_loader [(''inc'', marking_template)]) :: (string list, string list) engine\<close>
  let ?ls = \<open>[def_render,
            ''    _b = []; w = _b.append'',
            ''    if 'k' not in local_defs:'',
            ''        local_defs['k'] = 1'',
            ''        w(str(ctx['missing'])); w('' @ [SQ, BSL] @ ''n'' @ [SQ] @ '')'',
            [],
            ''    w('OK')'',
            ''    return "".join(_b)'']\<close>
  have src: "source_lines (Some [''str'']) marking_template = Inr ?ls"
    by code_simp
  have "load (engine_loader ?e) (Some ''inc'')
          (case kw_source no_kwargs of None \<Rightarrow> None | Some s \<Rightarrow> s)
        = Inr (Some ''inc'', marking_template)"
    by (simp add: load_def Engine_def dict_loader_def no_kwargs_def)
  from template_routine_lines_host [OF this] src
  have r: "template_routine lines_host ?e (Some ''inc'') no_kwargs = Inr ?ls"
    by (simp add: no_kwargs_def Engine_def)
  have g: "get_template lines_host ?e (Some ''inc'') no_kwargs
      = (Inr \<lparr>tname = Some ''inc'', render_template = ?ls, oid = 0\<rparr>,
         ?e\<lparr>created := Suc 0,
            templates := [''inc'' \<mapsto> \<lparr>tname = Some ''inc'', render_template = ?ls, oid = 0\<rparr>],
            renders := [''inc'' \<mapsto> ?ls]\<rparr>)"
    using r by (simp add: get_template_no_kwargs compile_template_uncached Engine_def)
  show ?thesis
    by (simp add: r g Template_render_def render_def render_second_def run_marking_def
        compile_template_def)
qed

subsection \<open>The module-level get_template and render_template\<close>

text \<open>\<^verbatim>\<open>'{{' in name\<close>\<close>

fun has_var_start :: "string \<Rightarrow> bool" where
  "has_var_start [] = False"
| "has_var_start (c # cs) = (var_ahead (c # cs) \<or> has_var_start cs)"

text \<open>The line that \<^verbatim>\<open>get_template\<close> puts in front of the source:
  \<^verbatim>\<open>"%require(" + " ".join(require) + ")\n"\<close>.\<close>

definition require_line :: "string list \<Rightarrow> string" where
  "require_line keys = ''%require('' @ join '' '' keys @ '')'' @ [NL]"

definition prepend_require :: "string list \<Rightarrow> string \<Rightarrow> string" where
  "prepend_require keys src = (if keys \<noteq> [] then require_line keys @ src else src)"

text \<open>The module-level \<^verbatim>\<open>get_template(name, source, require)\<close> on the engine of the
  module. \<open>debug\<close> is \<^verbatim>\<open>get_app().debug\<close>; \<open>require\<close> is the list of the names that
  iterating over the argument gives (the keys, for the dictionary that
  \<^verbatim>\<open>render_template\<close> passes). With neither a source nor a name, \<^verbatim>\<open>'\n' not in name\<close>
  raises \<^verbatim>\<open>TypeError\<close>.\<close>

definition module_get_template ::
  "('c, 'r, 'm) host \<Rightarrow> ('r, 'm) engine \<Rightarrow> bool \<Rightarrow> string option \<Rightarrow> string option
     \<Rightarrow> string list \<Rightarrow> (error + 'r template) \<times> ('r, 'm) engine" where
  "module_get_template h e debug name source require =
     (let e0 = (if debug then clear e else e) in
      case source of
        None \<Rightarrow>
          (case name of
             None \<Rightarrow> (Inl TypeError, e0)
           | Some n \<Rightarrow>
               if NL \<notin> set n \<and> \<not> has_var_start n then get_template h e0 (Some n) no_kwargs
               else get_template h e0 None
                      \<lparr>kw_source = Some (Some (prepend_require require n)),
                       kw_default_filters = None\<rparr>)
      | Some src \<Rightarrow>
          get_template h e0 name
            \<lparr>kw_source = Some (Some (prepend_require require src)),
             kw_default_filters = None\<rparr>)"


subsection \<open>The require line of an inline template\<close>

lemma replace_crlf_append:
  "CR \<notin> set a \<Longrightarrow> replace_crlf (a @ b) = a @ replace_crlf b"
proof (induction a)
  case Nil
  then show ?case by simp
next
  case (Cons c a)
  then show ?case by (cases "a @ b") auto
qed

lemma line_join_sub_id: "BSL \<notin> set a \<Longrightarrow> line_join_sub a = a"
  by (induction a rule: line_join_sub.induct) auto

lemma stmt_tail_line:
  "NL \<notin> set a \<Longrightarrow> BSL \<notin> set a \<Longrightarrow> stmt_tail False (a @ NL # r) = Some (a, r)"
  by (induction a) auto

lemma findall_names_word:
  "\<forall>c \<in> set k. \<not> (py_space c \<or> c = CHR '','') \<Longrightarrow>
     findall_names cur (k @ r) = findall_names (cur @ k) r"
  by (induction k arbitrary: cur) auto

definition key_ok :: "string \<Rightarrow> bool" where
  "key_ok k = (k \<noteq> [] \<and> (\<forall>c \<in> set k. wordchar c))"

lemma wordchar_not_special:
  assumes "wordchar c"
  shows "\<not> py_space c" "c \<noteq> CHR '',''" "c \<noteq> CHR '')''" "c \<noteq> CHR ''(''" "c \<noteq> NL"
    "c \<noteq> BSL" "c \<noteq> CR" "c \<noteq> CHR '' ''" "c \<noteq> CHR ''%''"
  using assms by (auto simp: wordchar_def py_space_def Let_def)

lemma findall_names_join:
  assumes "\<forall>k \<in> set (k0 # ks). key_ok k"
  shows "findall_names [] (join '' '' (k0 # ks)) = k0 # ks"
  using assms
proof (induction ks arbitrary: k0)
  case Nil
  then have "\<forall>c \<in> set k0. \<not> (py_space c \<or> c = CHR '','')" and "k0 \<noteq> []"
    by (auto simp: key_ok_def dest: wordchar_not_special)
  with findall_names_word [of k0 "[]" "[]"] show ?case by simp
next
  case (Cons k1 ks)
  then have w: "\<forall>c \<in> set k0. \<not> (py_space c \<or> c = CHR '','')" and ne: "k0 \<noteq> []"
    by (auto simp: key_ok_def dest: wordchar_not_special)
  from Cons.prems have "\<forall>k \<in> set (k1 # ks). key_ok k" by simp
  then have ih: "findall_names [] (join '' '' (k1 # ks)) = k1 # ks" by (rule Cons.IH)
  from findall_names_word [OF w, of "[]" "'' '' @ join '' '' (k1 # ks)"] ne ih
  show ?case by (simp add: py_space_def)
qed

text \<open>The characters of the joined keys are word characters and blanks, and the last
  one is a word character.\<close>

lemma join_Cons: "join sep (p # ps) = (if ps = [] then p else p @ sep @ join sep ps)"
  by (cases ps) simp_all

lemma join_keys_chars:
  assumes "\<forall>k \<in> set ks. key_ok k"
  shows "\<forall>c \<in> set (join '' '' ks). wordchar c \<or> c = CHR '' ''"
  using assms by (induction ks) (auto simp: key_ok_def join_Cons)

lemma join_keys_last:
  assumes "\<forall>k \<in> set ks. key_ok k" and "ks \<noteq> []"
  shows "join '' '' ks \<noteq> [] \<and> wordchar (last (join '' '' ks))"
  using assms by (induction ks) (auto simp: key_ok_def join_Cons)

lemma join_keys_hd:
  assumes "\<forall>k \<in> set ks. key_ok k" and "ks \<noteq> []"
  shows "wordchar (hd (join '' '' ks))"
  using assms by (cases ks) (auto simp: key_ok_def join_Cons)

lemma paren_close_word:
  assumes "\<forall>c \<in> set x. wordchar c \<or> c = CHR '' ''" and "x \<noteq> []" and "wordchar (last x)"
  shows "\<not> paren_close (x @ r)"
proof -
  from assms(2,3) have "\<not> py_space (last x)" by (auto dest: wordchar_not_special)
  with assms(2) obtain c where c: "c \<in> set x" "\<not> py_space c"
    using last_in_set by blast
  then have "dropWhile py_space (x @ r) = dropWhile py_space x @ r"
    by (simp add: dropWhile_append1)
  moreover from c have ne: "dropWhile py_space x \<noteq> []" by (auto simp: dropWhile_eq_Nil_conv)
  moreover from ne have "hd (dropWhile py_space x) \<in> set x"
    using hd_in_set set_dropWhileD by metis
  moreover from ne have "\<not> py_space (hd (dropWhile py_space x))"
    using hd_dropWhile by metis
  ultimately obtain d ds where "dropWhile py_space (x @ r) = d # ds" and "d \<in> set x"
    and "\<not> py_space d"
    by (cases "dropWhile py_space x") auto
  with assms(1) have "d \<noteq> CHR '')''" by (auto simp: py_space_def dest: wordchar_not_special)
  with \<open>dropWhile py_space (x @ r) = d # ds\<close> show ?thesis by (simp add: paren_close_def)
qed

lemma paren_group_word:
  assumes "\<forall>c \<in> set x. wordchar c \<or> c = CHR '' ''" and "x = [] \<or> wordchar (last x)"
  shows "paren_group (x @ CHR '')'' # r) = Some x"
  using assms
proof (induction x)
  case Nil
  then show ?case by (simp add: paren_close_def py_space_def)
next
  case (Cons c x)
  from Cons.prems have l: "wordchar (last (c # x))" by simp
  with Cons.prems(1) have nc: "\<not> paren_close ((c # x) @ CHR '')'' # r)"
    by (intro paren_close_word) simp_all
  from Cons.prems(1) have "c \<noteq> NL" by (auto dest: wordchar_not_special)
  moreover from Cons.prems l have "paren_group (x @ CHR '')'' # r) = Some x"
    by (intro Cons.IH) (auto split: if_splits)
  ultimately show ?case using nc by simp
qed

lemma paren_search_skip:
  "CHR ''('' \<notin> set w \<Longrightarrow> paren_search (w @ CHR ''('' # x) = paren_search (CHR ''('' # x)"
  by (induction w) auto

lemma tokenize_loop_prefix:
  "tokenize_loop rules source pos ln0 acc = Inr toks \<Longrightarrow> \<exists>more. toks = acc @ more"
proof (induction rules source pos ln0 acc rule: tokenize_loop.induct)
  case (1 rules source pos ln0 acc)
  show ?case
  proof (cases "pos < length source")
    case False
    with "1.prems" show ?thesis by (simp add: tokenize_loop.simps)
  next
    case True
    show ?thesis
    proof (cases "first_rule rules source pos")
      case (Inl e)
      with True "1.prems" show ?thesis by (simp add: tokenize_loop.simps)
    next
      case (Inr rv)
      obtain npos token v where rv: "rv = (npos, token, v)" by (cases rv)
      show ?thesis
      proof (cases "npos > pos")
        case False
        with True Inr rv "1.prems" show ?thesis by (simp add: tokenize_loop.simps)
      next
        case adv: True
        from True Inr rv adv "1.prems"
        have run: "tokenize_loop rules source npos
            (ln0 + int (count_nl (slice source pos npos))) (acc @ [(ln0, token, v)]) = Inr toks"
          by (simp add: tokenize_loop.simps [of rules source pos])
        from True Inr rv adv run
        have "\<exists>more. toks = (acc @ [(ln0, token, v)]) @ more"
          by (intro "1.IH" [of "(npos, token, v)" npos "(token, v)" token v]) auto
        then show ?thesis by auto
      qed
    qed
  qed
qed

lemma stmt_match_require:
  assumes "\<forall>k \<in> set keys. key_ok k" and "keys \<noteq> []"
  shows "stmt_match (require_line keys @ r) 0
           = Some (length (require_line keys), ''require'',
                   ''('' @ join '' '' keys @ '')'')"
proof -
  let ?J = "join '' '' keys"
  from assms have chars: "\<forall>c \<in> set ?J. wordchar c \<or> c = CHR '' ''"
    by (intro join_keys_chars)
  then have nl: "NL \<notin> set (''('' @ ?J @ '')'')" and bs: "BSL \<notin> set (''('' @ ?J @ '')'')"
    by (auto dest: wordchar_not_special)
  have tail: "stmt_tail False ((''('' @ ?J @ '')'') @ NL # r) = Some (''('' @ ?J @ '')'', r)"
    using nl bs by (rule stmt_tail_line)
  have kw: "stmt_keyword (''require('' @ ?J @ '')'' @ NL # r) = ''require''"
    by (simp add: stmt_keyword_def wordchar_def)
  show ?thesis
    using tail kw
    by (simp add: stmt_match_def require_line_def is_blank_def)
qed

lemma stmt_token_require:
  assumes "\<forall>k \<in> set keys. key_ok k" and "keys \<noteq> []"
  shows "stmt_token (require_line keys @ r) 0
           = Inr (Some (length (require_line keys), Require, TList keys))"
proof -
  let ?J = "join '' '' keys"
  from assms have chars: "\<forall>c \<in> set ?J. wordchar c \<or> c = CHR '' ''"
    by (intro join_keys_chars)
  from assms have last: "?J \<noteq> []" "wordchar (last ?J)" and hd: "wordchar (hd ?J)"
    using join_keys_last join_keys_hd by blast+
  from chars have bs: "BSL \<notin> set (''('' @ ?J @ '')'')"
    by (auto dest: wordchar_not_special)
  have lj: "line_join_sub (''('' @ ?J @ '')'') = ''('' @ ?J @ '')''"
    using bs by (rule line_join_sub_id)
  from last hd have dw: "dropWhile py_space (?J @ '')'') = ?J @ '')''"
    by (cases ?J) (auto dest: wordchar_not_special)
  have pg: "paren_group (?J @ CHR '')'' # []) = Some ?J"
    using chars last by (intro paren_group_word) simp_all
  have "paren_search (''require'' @ CHR ''('' # ?J @ '')'') = paren_search (CHR ''('' # ?J @ '')'')"
    by (rule paren_search_skip) simp
  with dw pg have ps: "paren_search (''require('' @ ?J @ '')'') = Some ?J" by simp
  from assms have fa: "findall_names [] ?J = keys"
    by (cases keys) (simp_all add: findall_names_join)
  have tk: "TOKENS_get (rstrip ''require'') = Require"
    by (simp add: TOKENS_get_def TOKENS_def rstrip_def py_space_def)
  show ?thesis
    using stmt_match_require [OF assms, of r] lj ps fa tk
    by (simp add: stmt_token_def)
qed

lemma count_nl_require_line:
  assumes "\<forall>k \<in> set keys. key_ok k"
  shows "count_nl (require_line keys) = 1"
proof -
  from assms have "\<forall>c \<in> set (join '' '' keys). wordchar c \<or> c = CHR '' ''"
    by (intro join_keys_chars)
  then have "filter (\<lambda>c. c = NL) (join '' '' keys) = []"
    by (auto simp: filter_empty_conv dest: wordchar_not_special)
  then show ?thesis by (simp add: count_nl_def require_line_def)
qed

lemma replace_crlf_require_line:
  assumes "\<forall>k \<in> set keys. key_ok k"
  shows "replace_crlf (require_line keys @ src) = require_line keys @ replace_crlf src"
proof -
  from assms have "\<forall>c \<in> set (join '' '' keys). wordchar c \<or> c = CHR '' ''"
    by (intro join_keys_chars)
  then have "CR \<notin> set (require_line keys)"
    by (auto simp: require_line_def dest: wordchar_not_special)
  then show ?thesis by (rule replace_crlf_append)
qed

lemma tokenize_require_first:
  assumes "\<forall>k \<in> set keys. key_ok k" and "keys \<noteq> []"
    and "Parser_tokenize (require_line keys @ src) = Inr toks"
  shows "\<exists>more. toks = (1, Require, TList keys) # more"
proof -
  let ?L = "require_line keys"
  let ?s = "?L @ replace_crlf src"
  have len: "0 < length ?L" by (simp add: require_line_def)
  have first: "first_rule Parser_rules ?s 0 = Inr (length ?L, Require, TList keys)"
    using stmt_token_require [OF assms(1,2), of "replace_crlf src"]
    by (simp add: Parser_rules_def)
  have sl: "slice ?s 0 (length ?L) = ?L" by (simp add: slice_def)
  from assms(3) have "tokenize_loop Parser_rules ?s 0 1 [] = Inr toks"
    by (simp add: Parser_tokenize_def tokenize_def replace_crlf_require_line [OF assms(1)])
  with first len sl count_nl_require_line [OF assms(1)]
  have "tokenize_loop Parser_rules ?s (length ?L) 2 [(1, Require, TList keys)] = Inr toks"
    by (simp add: tokenize_loop.simps [of Parser_rules ?s 0])
  from tokenize_loop_prefix [OF this] show ?thesis by simp
qed

lemma parse_require_first:
  assumes "\<forall>k \<in> set keys. key_ok k" and "keys \<noteq> []"
    and "parse_source (require_line keys @ src) = Inr nodes"
  shows "\<exists>rest. nodes = Node 1 Require (Leaf (TList keys)) # rest"
proof -
  from assms(3) obtain toks where
    toks: "Parser_tokenize (require_line keys @ src) = Inr toks" and
    p: "parse_iter (end_continue toks) = Inr nodes"
    by (auto simp: parse_source_def split: sum.splits)
  from tokenize_require_first [OF assms(1,2) toks] obtain more where
    "toks = (1, Require, TList keys) # more" by blast
  with p show ?thesis
    by (auto simp: parse_iter_def parse_loop.simps OUT_TOKENS_def COMPOUND_TOKENS_def flush_def
        split: sum.splits prod.splits)
qed

text \<open>The builder after the header, the writer declaration and the bindings of the
  keys.\<close>

definition bound_builder :: "string list \<Rightarrow> string list option \<Rightarrow> builder" where
  "bound_builder keys filters =
     \<lparr>lines = [def_render, ''    '' @ writer_declare, ''    '' @ bindings keys],
      indent = ''    '', lineno = 1, offset = - 2, local_vars = set keys,
      default_filters = (case filters of None \<Rightarrow> [] | Some f \<Rightarrow> f)\<rparr>"

lemma bindings_nonempty: "keys \<noteq> [] \<Longrightarrow> bindings keys \<noteq> []"
  by (cases keys) (simp_all add: bindings_def join_Cons)

lemma count_nl_bindings:
  assumes "\<forall>k \<in> set keys. key_ok k"
  shows "count_nl (bindings keys) = 0"
  using assms
proof (induction keys)
  case Nil
  then show ?case by (simp add: bindings_def count_nl_def)
next
  case (Cons k ks)
  then have "count_nl (bindings ks) = 0" by simp
  moreover from Cons.prems have "filter (\<lambda>c. c = NL) k = []"
    by (auto simp: filter_empty_conv key_ok_def dest: wordchar_not_special)
  ultimately show ?case by (simp add: bindings_def count_nl_def join_Cons)
qed

lemma build_render_with_require:
  assumes "\<forall>k \<in> set keys. key_ok k" and "keys \<noteq> []"
    and "render_extends (Node 1 Require (Leaf (TList keys)) # rest) = None"
  shows "BlockBuilder (- 2)
           [Node (- 1) Compound (Block (TStr def_render)
              [Node 0 Render (Nodes (Node 1 Require (Leaf (TList keys)) # rest))])] filters
         = (case build_block rest (bound_builder keys filters) of
              Inl err \<Rightarrow> Inl err
            | Inr b2 \<Rightarrow>
                (case add (lineno b2 + 1) writer_return b2 of
                   Inl err \<Rightarrow> Inl err
                 | Inr b3 \<Rightarrow> Inr (exit_block b3)))"
proof -
  have rl: "render_literal (Node 1 Require (Leaf (TList keys)) # rest) = None"
    by (simp add: render_literal_def split: list.splits)
  have wd: "writer_declare \<noteq> []" "count_nl writer_declare = 0" "writer_declare \<noteq> ''return''"
    by (simp_all add: writer_declare_def count_nl_def)
  have dr: "def_render \<noteq> []" "count_nl def_render = 0" "def_render \<noteq> ''return''"
    by (simp_all add: def_render_def count_nl_def)
  have bn: "bindings keys \<noteq> []" using assms(2) by (rule bindings_nonempty)
  have br: "bindings keys \<noteq> ''return''"
  proof
    assume "bindings keys = ''return''"
    moreover from assms(2) have "CHR ''='' \<in> set (bindings keys)"
      by (cases keys) (auto simp: bindings_def join_Cons)
    ultimately show False by simp
  qed
  show ?thesis
    using assms(3) rl wd dr bn br count_nl_bindings [OF assms(1)]
    by (simp add: BlockBuilder_def build_token.simps add_def enter_def build_require_def
        bound_builder_def Let_def split: sum.splits)
qed

subsection \<open>The builder only appends\<close>

text \<open>\<open>extends_lines old new\<close>: the lines \<open>new\<close> are the lines \<open>old\<close> with text added
  at the end of the last line and with further lines after it.\<close>

definition extends_lines :: "string list \<Rightarrow> string list \<Rightarrow> bool" where
  "extends_lines old new = (old = [] \<or> (\<exists>l ls. new = butlast old @ (last old @ l) # ls))"

lemma extends_lines_refl: "extends_lines xs xs"
proof (cases "xs = []")
  case True
  then show ?thesis by (simp add: extends_lines_def)
next
  case False
  then have "xs = butlast xs @ (last xs @ []) # []" by simp
  then show ?thesis unfolding extends_lines_def by blast
qed

lemma extends_lines_trans:
  assumes "extends_lines a b" and "extends_lines b c"
  shows "extends_lines a c"
proof (cases "a = []")
  case True
  then show ?thesis by (simp add: extends_lines_def)
next
  case False
  with assms(1) obtain l ls where b: "b = butlast a @ (last a @ l) # ls"
    by (auto simp: extends_lines_def)
  then have "b \<noteq> []" by simp
  with assms(2) obtain l' ls' where c: "c = butlast b @ (last b @ l') # ls'"
    by (auto simp: extends_lines_def)
  show ?thesis
  proof (cases "ls = []")
    case True
    with b c have "c = butlast a @ (last a @ (l @ l')) # ls'" by (simp add: butlast_append)
    then show ?thesis unfolding extends_lines_def by blast
  next
    case nonempty: False
    with b c have "c = butlast a @ (last a @ l) # (butlast ls @ (last ls @ l') # ls')"
      by (simp add: butlast_append)
    then show ?thesis unfolding extends_lines_def by blast
  qed
qed

lemma add_extends:
  assumes "add ln c b = Inr b'"
  shows "extends_lines (lines b) (lines b')"
proof (cases "lines b = []")
  case True
  then show ?thesis by (simp add: extends_lines_def)
next
  case False
  then have split: "lines b = butlast (lines b) @ [last (lines b)]" by simp
  let ?code = "if c = ''return'' then writer_return else c"
  from assms have ge: "ln \<ge> lineno b" by (auto simp: add_def split: if_splits)
  show ?thesis
  proof (cases "ln > lineno b")
    case True
    with assms ge have "lines b' = lines b @ replicate (nat (ln - lineno b - 1)) []
        @ [if ?code \<noteq> [] then indent b @ ?code else []]"
      by (auto simp: add_def Let_def)
    with split have "lines b' = butlast (lines b) @ (last (lines b) @ [])
        # (replicate (nat (ln - lineno b - 1)) [] @ [if ?code \<noteq> [] then indent b @ ?code else []])"
      by (metis append.assoc append_Cons append_Nil append_Nil2)
    then show ?thesis unfolding extends_lines_def by blast
  next
    case same: False
    show ?thesis
    proof (cases "?code = []")
      case True
      with assms ge same have "lines b' = lines b" by (auto simp: add_def Let_def split: if_splits)
      then show ?thesis by (simp add: extends_lines_refl)
    next
      case code: False
      let ?l = "last (lines b)"
      let ?l' = "if ?l = [] then indent b else if last ?l \<noteq> CHR '':'' then ?l @ ''; '' else ?l"
      from assms ge same code False have "lines b' = butlast (lines b) @ [?l' @ ?code]"
        by (auto simp: add_def Let_def split: if_splits)
      moreover have "\<exists>x. ?l' @ ?code = ?l @ x" by auto
      ultimately obtain x where "lines b' = butlast (lines b) @ (?l @ x) # []" by auto
      then show ?thesis unfolding extends_lines_def by blast
    qed
  qed
qed

lemma add_extends_trans:
  "extends_lines old (lines b) \<Longrightarrow> add ln c b = Inr b' \<Longrightarrow> extends_lines old (lines b')"
  by (blast intro: extends_lines_trans add_extends)

lemma build_out_extends:
  "build_out ts b = Inr b' \<Longrightarrow> extends_lines (lines b) (lines b')"
proof (induction ts arbitrary: b)
  case Nil
  then show ?case by (simp add: extends_lines_refl)
next
  case (Cons t ts)
  obtain l k v where t: "t = (l, k, v)" by (cases t)
  from Cons.prems t show ?case
    by (auto simp: Let_def split: tvalue.splits if_splits sum.splits
        intro: extends_lines_trans add_extends dest: Cons.IH)
qed

lemma build_require_extends:
  "build_require ln names b = Inr b' \<Longrightarrow> extends_lines (lines b) (lines b')"
  by (auto simp: build_require_def dest: add_extends)

lemma build_end_extends:
  "build_end ln b = Inr b' \<Longrightarrow> extends_lines (lines b) (lines b')"
  by (auto simp: build_end_def extends_lines_refl split: if_splits dest: add_extends)

lemma build_import_extends:
  "build_import ln v b = Inr b' \<Longrightarrow> extends_lines (lines b) (lines b')"
  by (auto simp: build_import_def Let_def split: if_splits dest: add_extends)

lemma build_from_extends:
  "build_from ln v b = Inr b' \<Longrightarrow> extends_lines (lines b) (lines b')"
  by (auto simp: build_from_def split: list.splits if_splits dest: add_extends)

lemma build_def_refused_extends:
  "build_def_refused ln stmt l0 k b = Inr b' \<Longrightarrow> extends_lines (lines b) (lines b')"
  by (auto simp: build_def_refused_def enter_def exit_block_def split: sum.splits
      intro: extends_lines_trans dest!: add_extends)

lemma build_def_register_extends:
  "build_def_register stmt l2 b = Inr b' \<Longrightarrow> extends_lines (lines b) (lines b')"
  by (auto simp: build_def_register_def exit_block_def split: option.splits dest!: add_extends)

lemma build_extends:
  "\<forall>b'. build_block ns b = Inr b' \<longrightarrow> extends_lines (lines b) (lines b')"
  "\<forall>b'. build_token n b = Inr b' \<longrightarrow> extends_lines (lines b) (lines b')"
proof (induction ns b and n b rule: build_block_build_token.induct)
  case (1 b)
  show ?case by (simp add: extends_lines_refl)
next
  case (2 n ns b)
  show ?case
  proof (intro allI impI)
    fix b'
    assume run: "build_block (n # ns) b = Inr b'"
    then obtain b1 where b1: "build_token n b = Inr b1" and rest: "build_block ns b1 = Inr b'"
      by (auto split: sum.splits)
    from "2.IH"(1) b1 have "extends_lines (lines b) (lines b1)" by blast
    moreover from "2.IH"(2) [OF b1] rest have "extends_lines (lines b1) (lines b')" by blast
    ultimately show "extends_lines (lines b) (lines b')" by (rule extends_lines_trans)
  qed
next
  case (3 ln token v b)
  show ?case
  proof (intro allI impI)
    fix b'
    assume run: "build_token (Node ln token v) b = Inr b'"
    consider "token = Statement" | "token = Hash" | "token = Import" | "token = From"
      | "token = Require" | "token = Out" | "token = End" | "token = Compound"
      | "token = Def" | "token = Render"
      | "token \<notin> {Statement, Hash, Import, From, Require, Out, End, Compound, Def, Render}"
      by blast
    then show "extends_lines (lines b) (lines b')"
    proof cases
      case 1
      with run show ?thesis
        by (auto simp: build_token.simps split: nvalue.splits tvalue.splits dest: add_extends)
    next
      case 2
      with run show ?thesis by (simp add: build_token.simps extends_lines_refl)
    next
      case 3
      with run show ?thesis
        by (auto simp: build_token.simps split: nvalue.splits tvalue.splits
            dest: build_import_extends)
    next
      case 4
      with run show ?thesis
        by (auto simp: build_token.simps split: nvalue.splits tvalue.splits
            dest: build_from_extends)
    next
      case 5
      with run show ?thesis
        by (auto simp: build_token.simps split: nvalue.splits tvalue.splits
            dest: build_require_extends)
    next
      case 6
      with run show ?thesis
        by (auto simp: build_token.simps split: nvalue.splits tvalue.splits
            dest: build_out_extends)
    next
      case 7
      with run show ?thesis
        by (auto simp: build_token.simps dest: build_end_extends)
    next
      case 8
      with run obtain tv nodes stmt b1 b2 where
        v: "v = Block tv nodes" "tv = TStr stmt" and
        a1: "add ln stmt b = Inr b1" and
        bb: "build_block nodes (enter b1) = Inr b2" and
        b': "b' = exit_block b2"
        by (auto simp: build_token.simps split: nvalue.splits tvalue.splits sum.splits)
      from a1 have e1: "extends_lines (lines b) (lines (enter b1))"
        by (auto simp: enter_def dest: add_extends)
      from "3.IH"(1) [of tv nodes stmt b1] 8 v a1 bb
      have "extends_lines (lines (enter b1)) (lines b2)" by simp
      with e1 b' show ?thesis by (auto simp: exit_block_def intro: extends_lines_trans)
    next
      case 9
      with run obtain tv nodes stmt where
        v: "v = Block tv nodes" "tv = TStr stmt" and ne: "nodes \<noteq> []"
        by (auto simp: build_token.simps split: nvalue.splits tvalue.splits if_splits)
      show ?thesis
      proof (cases "nkind (hd nodes) \<in> COMPOUND_TOKENS")
        case True
        with run 9 v ne show ?thesis
          by (auto simp: build_token.simps dest: build_def_refused_extends)
      next
        case False
        with run 9 v ne obtain b1 where a1: "add ln stmt b = Inr b1"
          by (auto simp: build_token.simps split: sum.splits)
        then have e1: "extends_lines (lines b) (lines (enter b1))"
          by (auto simp: enter_def dest: add_extends)
        show ?thesis
        proof (cases "snd (def_single_markup ln nodes)")
          case None
          with run 9 v ne False a1 obtain b2 b3 b4 where
            a2: "add (ln + 1) writer_declare (enter b1) = Inr b2" and
            bb: "build_block nodes b2 = Inr b3" and
            a3: "add (lineno b3) writer_return b3 = Inr b4" and
            rg: "build_def_register stmt (lineno b3) b4 = Inr b'"
            by (auto simp: build_token.simps split: sum.splits)
          from "3.IH"(2) [of tv nodes stmt b1 b2] 9 v ne False a1 None a2 bb
          have "extends_lines (lines b2) (lines b3)" by simp
          with e1 a2 a3 rg show ?thesis
            by (blast intro: extends_lines_trans add_extends build_def_register_extends)
        next
          case (Some m)
          with run 9 v ne False a1 obtain b2 where
            a2: "add (fst (def_single_markup ln nodes)) (''return '' @ py_repr m) (enter b1)
                   = Inr b2" and
            rg: "build_def_register stmt (fst (def_single_markup ln nodes)) b2 = Inr b'"
            by (auto simp: build_token.simps split: sum.splits)
          with e1 show ?thesis
            by (blast intro: extends_lines_trans add_extends build_def_register_extends)
        qed
      qed
    next
      case 10
      with run obtain nodes where v: "v = Nodes nodes" and le: "ln \<le> 0"
        by (auto simp: build_token.simps split: nvalue.splits if_splits)
      show ?thesis
      proof (cases "nodes = []")
        case True
        with run 10 v le show ?thesis by (auto simp: build_token.simps dest: add_extends)
      next
        case ne: False
        show ?thesis
        proof (cases "render_extends nodes")
          case (Some r)
          with run 10 v le ne obtain extends sub b1 where
            r: "r = Inr (extends, sub)" and
            bb: "build_block (filter (\<lambda>n. nkind n = Def \<or> nkind n = Require) sub) b = Inr b1" and
            a1: "add (lineno b1 + 1)
                   (''return _r('' @ extends @ '', ctx, local_defs, super_defs)'') b1 = Inr b'"
            by (auto simp: build_token.simps split: sum.splits prod.splits)
          from "3.IH"(4) [of nodes r "(extends, sub)" extends sub] 10 v le ne Some r bb
          have "extends_lines (lines b) (lines b1)" by simp
          with a1 show ?thesis by (blast intro: extends_lines_trans add_extends)
        next
          case None
          show ?thesis
          proof (cases "render_literal nodes")
            case (Some lm)
            with run 10 v le ne None show ?thesis
              by (auto simp: build_token.simps split: prod.splits dest: add_extends)
          next
            case nolit: None
            with run 10 v le ne None obtain b1 b2 where
              a1: "add ln writer_declare b = Inr b1" and
              bb: "build_block nodes b1 = Inr b2" and
              a2: "add (lineno b2 + 1) writer_return b2 = Inr b'"
              by (auto simp: build_token.simps split: sum.splits)
            from "3.IH"(3) [of nodes b1] 10 v le ne None nolit a1 bb
            have "extends_lines (lines b1) (lines b2)" by simp
            with a1 a2 show ?thesis by (blast intro: extends_lines_trans add_extends)
          qed
        qed
      qed
    next
      case 11
      with run show ?thesis by (auto simp: build_token.simps)
    qed
  qed
qed

lemma source_lines_require_prefix:
  assumes "\<forall>k \<in> set keys. key_ok k" and "keys \<noteq> []"
    and "parse_source (require_line keys @ src) = Inr nodes"
    and "render_extends nodes = None"
    and "source_lines filters (require_line keys @ src) = Inr ls"
  shows "\<exists>l more. ls = [def_render, ''    '' @ writer_declare, (''    '' @ bindings keys) @ l] @ more"
proof -
  from parse_require_first [OF assms(1,2,3)] obtain rest where
    nodes: "nodes = Node 1 Require (Leaf (TList keys)) # rest" by blast
  from assms(3,5) obtain b where
    b: "BlockBuilder (- 2)
          [Node (- 1) Compound (Block (TStr def_render) [Node 0 Render (Nodes nodes)])] filters
        = Inr b" and ls: "ls = lines b"
    by (auto simp: source_lines_def split: sum.splits)
  from b nodes assms(4) build_render_with_require [OF assms(1,2), of rest filters]
  obtain b2 b3 where
    b2: "build_block rest (bound_builder keys filters) = Inr b2" and
    b3: "add (lineno b2 + 1) writer_return b2 = Inr b3" and
    bb: "b = exit_block b3"
    by (auto split: sum.splits)
  from build_extends(1) b2 have "extends_lines (lines (bound_builder keys filters)) (lines b2)"
    by blast
  from this b3 have "extends_lines (lines (bound_builder keys filters)) (lines b3)"
    by (rule add_extends_trans)
  then obtain l more where
    "lines b3 = [def_render, ''    '' @ writer_declare] @ ((''    '' @ bindings keys) @ l) # more"
    by (auto simp: extends_lines_def bound_builder_def)
  with bb ls show ?thesis by (auto simp: exit_block_def)
qed

text \<open>
  Claim C10 (as amended). Let the keys of the context be non-empty words (letters,
  digits, underscores), at least one. The module-level \<^verbatim>\<open>get_template\<close> hands an
  inline source (a source argument, or a name with a newline or \<^verbatim>\<open>{{\<close> in it) to the
  engine with the line \<^verbatim>\<open>%require(k1 k2 ...)\<close> in front; a plain name is looked up by
  name, with no source and no options. The first node of the inline template is then the
  \<^verbatim>\<open>require\<close> of the keys. Unless that node list is the \<^verbatim>\<open>extends\<close> case of
  \<^verbatim>\<open>build_render\<close> (fewer than three nodes, the last an \<^verbatim>\<open>extends\<close>: the
  \<^verbatim>\<open>require\<close> before it is ignored), the lines of the routine begin with the header,
  the writer declaration and the bindings \<^verbatim>\<open>k = ctx['k']\<close> of the keys, before any
  code of the template body.
\<close>

theorem require_line_binds_keys:
  assumes "\<forall>k \<in> set keys. key_ok k" and "keys \<noteq> []"
  shows "module_get_template h e debug name (Some src) keys
           = get_template h (if debug then clear e else e) name
               \<lparr>kw_source = Some (Some (require_line keys @ src)), kw_default_filters = None\<rparr>
    \<and> (NL \<in> set n \<or> has_var_start n \<longrightarrow>
          module_get_template h e debug (Some n) None keys
            = get_template h (if debug then clear e else e) None
                \<lparr>kw_source = Some (Some (require_line keys @ n)), kw_default_filters = None\<rparr>)
    \<and> (NL \<notin> set n \<and> \<not> has_var_start n \<longrightarrow>
          module_get_template h e debug (Some n) None keys
            = get_template h (if debug then clear e else e) (Some n) no_kwargs)
    \<and> (\<forall>nodes. parse_source (require_line keys @ src) = Inr nodes \<longrightarrow>
          (\<exists>rest. nodes = Node 1 Require (Leaf (TList keys)) # rest)
          \<and> (\<forall>ls. render_extends nodes = None \<longrightarrow>
                source_lines filters (require_line keys @ src) = Inr ls \<longrightarrow>
                (\<exists>l more. ls = [def_render, ''    '' @ writer_declare,
                                 (''    '' @ bindings keys) @ l] @ more)))"
proof (intro conjI allI impI)
  show "module_get_template h e debug name (Some src) keys
           = get_template h (if debug then clear e else e) name
               \<lparr>kw_source = Some (Some (require_line keys @ src)), kw_default_filters = None\<rparr>"
    using assms(2) by (simp add: module_get_template_def prepend_require_def)
next
  assume "NL \<in> set n \<or> has_var_start n"
  then show "module_get_template h e debug (Some n) None keys
            = get_template h (if debug then clear e else e) None
                \<lparr>kw_source = Some (Some (require_line keys @ n)), kw_default_filters = None\<rparr>"
    using assms(2) by (auto simp: module_get_template_def prepend_require_def)
next
  assume "NL \<notin> set n \<and> \<not> has_var_start n"
  then show "module_get_template h e debug (Some n) None keys
            = get_template h (if debug then clear e else e) (Some n) no_kwargs"
    by (simp add: module_get_template_def)
next
  fix nodes
  assume "parse_source (require_line keys @ src) = Inr nodes"
  then show "\<exists>rest. nodes = Node 1 Require (Leaf (TList keys)) # rest"
    using assms by (intro parse_require_first)
next
  fix nodes ls
  assume "parse_source (require_line keys @ src) = Inr nodes" and "render_extends nodes = None"
    and "source_lines filters (require_line keys @ src) = Inr ls"
  with assms show "\<exists>l more. ls = [def_render, ''    '' @ writer_declare,
                                 (''    '' @ bindings keys) @ l] @ more"
    by (intro source_lines_require_prefix)
qed

definition loop_template :: string where
  "loop_template = ''%for x in items:'' @ [NL] @ ''{{x}}'' @ [BSL, NL] @ ''%endfor'' @ [NL]"

theorem require_line_binds_keys_witness:
  \<open>parse_source (require_line [''items''] @ loop_template)
     = Inr [Node 1 Require (Leaf (TList [''items''])),
            Node 2 Compound (Block (TStr ''for x in items:'')
              [Node 3 Out (Ops [(3, Var, TStr ''x''), (3, Markup, TStr [])]),
               Node 4 End (Leaf (TStr ''endfor''))])]
   \<and> source_lines (Some [''str'']) (require_line [''items''] @ loop_template)
     = Inr [def_render,
            ''    _b = []; w = _b.append'',
            ''    items = ctx['items']'',
            ''    for x in items:'',
            ''        w(str(x))'',
            ''    return "".join(_b)'']
   \<and> (\<exists>l more. [def_render,
            ''    _b = []; w = _b.append'',
            ''    items = ctx['items']'',
            ''    for x in items:'',
            ''        w(str(x))'',
            ''    return "".join(_b)'']
         = [def_render, ''    '' @ writer_declare, (''    '' @ bindings [''items'']) @ l] @ more)\<close>
proof -
  let ?nodes = \<open>[Node 1 Require (Leaf (TList [''items''])),
            Node 2 Compound (Block (TStr ''for x in items:'')
              [Node 3 Out (Ops [(3, Var, TStr ''x''), (3, Markup, TStr [])]),
               Node 4 End (Leaf (TStr ''endfor''))])]\<close>
  have k: "\<forall>k \<in> set [''items'']. key_ok k" by (simp add: key_ok_def wordchar_def)
  have n: "[''items''] \<noteq> []" by simp
  have p: "parse_source (require_line [''items''] @ loop_template) = Inr ?nodes"
    by code_simp
  have x: "render_extends ?nodes = None" by (simp add: render_extends_def)
  have s: \<open>source_lines (Some [''str'']) (require_line [''items''] @ loop_template)
     = Inr [def_render,
            ''    _b = []; w = _b.append'',
            ''    items = ctx['items']'',
            ''    for x in items:'',
            ''        w(str(x))'',
            ''    return "".join(_b)'']\<close>
    by code_simp
  from require_line_binds_keys [OF k n, of _ _ _ _ loop_template _ "Some [''str'']"] p x s
  show ?thesis by blast
qed

text \<open>
  Claim C10 as stated fails for an inline template that begins with \<^verbatim>\<open>extends\<close>: the
  \<^verbatim>\<open>require\<close> that is put before it is ignored, and the routine does not bind the key
  \<^verbatim>\<open>x\<close>, which the block of the template reads.
\<close>

definition child_with_key :: string where
  \<open>child_with_key =
     ''%extends("base")'' @ [NL] @ ''%def title():'' @ [NL] @ ''{{ x }}'' @ [NL]
     @ ''%enddef'' @ [NL]\<close>

theorem require_before_extends_ignored:
  \<open>source_lines (Some [''str'']) (require_line [''x''] @ child_with_key)
     = Inr [def_render, [], [], [],
            ''    def title():'',
            ''        _b = []; w = _b.append; w(str(x)); w('' @ [SQ, BSL] @ ''n'' @ [SQ]
              @ ''); return "".join(_b)'',
            ''    super_defs['title'] = title; title = local_defs.setdefault('title', title)'',
            ''    return _r("base", ctx, local_defs, super_defs)'']
   \<and> ''    '' @ bindings [''x'']
       \<notin> set [def_render, [], [], [],
            ''    def title():'',
            ''        _b = []; w = _b.append; w(str(x)); w('' @ [SQ, BSL] @ ''n'' @ [SQ]
              @ ''); return "".join(_b)'',
            ''    super_defs['title'] = title; title = local_defs.setdefault('title', title)'',
            ''    return _r("base", ctx, local_defs, super_defs)'']\<close>
  by code_simp

section \<open>A model of the host language\<close>

text \<open>
  The routine that \<^verbatim>\<open>BlockBuilder\<close> writes is Python source; \<^verbatim>\<open>compile_template\<close>
  hands it to the built-in \<^verbatim>\<open>compile\<close> and \<^verbatim>\<open>exec\<close>. To state what rendering
  returns, this section models a part of Python: names, string and number literals,
  list displays, calls, subscripts and attributes as expressions; expression statements,
  assignments, \<^verbatim>\<open>return\<close>, \<^verbatim>\<open>raise\<close>, \<^verbatim>\<open>pass\<close>, \<^verbatim>\<open>for\<close> and \<^verbatim>\<open>def\<close> as
  statements; dictionaries and lists as objects on a heap; the globals \<^verbatim>\<open>str\<close>,
  \<^verbatim>\<open>escape\<close> and \<^verbatim>\<open>_r\<close> of the engine. Whatever lies outside this part gives
  \<open>Unmodelled\<close>, never a wrong answer; \<open>PySyntaxError\<close> is given only where Python
  rejects the source: a compound statement with no colon or no body, an unexpected
  indent, a parameter name given twice, a string literal that does not end.
\<close>

subsection \<open>Tokens of a line\<close>

datatype ptok = KName string | KStr string | KNum nat | KOp char
















subsection \<open>Expressions and statements\<close>

datatype expr =
  EName string | EStr string | ENum nat | ENone | EBool bool
  | EList "expr list" | ECall expr "expr list" | ESub expr expr | EAttr expr string

datatype stmt =
  SExpr expr | SAssign string expr | SSubAssign expr expr expr | SReturn expr
  | SRaise expr | SPass | SFor string expr "stmt list" | SDef string "string list" "stmt list"

definition py_keywords :: "string list" where
  "py_keywords =
     [''False'', ''None'', ''True'', ''and'', ''as'', ''assert'', ''async'', ''await'',
      ''break'', ''class'', ''continue'', ''def'', ''del'', ''elif'', ''else'', ''except'',
      ''finally'', ''for'', ''from'', ''global'', ''if'', ''import'', ''in'', ''is'',
      ''lambda'', ''nonlocal'', ''not'', ''or'', ''pass'', ''raise'', ''return'', ''try'',
      ''while'', ''with'', ''yield'']"


definition is_op :: "char \<Rightarrow> ptok list \<Rightarrow> bool" where
  "is_op c ts = (case ts of KOp d # r \<Rightarrow> d = c | _ \<Rightarrow> False)"

text \<open>A recursive-descent parser for an expression at the front of a token list: an atom
  followed by calls, subscripts and attributes. The first argument bounds the depth of
  the recursion; the length of the token list is always enough. \<open>None\<close> means that
  the tokens are not an expression of the modelled part.\<close>

fun parse_expr :: "nat \<Rightarrow> ptok list \<Rightarrow> (expr \<times> ptok list) option"
  and parse_trailers :: "nat \<Rightarrow> expr \<Rightarrow> ptok list \<Rightarrow> (expr \<times> ptok list) option"
  and parse_items :: "nat \<Rightarrow> char \<Rightarrow> ptok list \<Rightarrow> (expr list \<times> ptok list) option" where
  "parse_expr 0 ts = None"
| "parse_expr (Suc k) ts =
     (case ts of
        [] \<Rightarrow> None
      | t # r \<Rightarrow>
          (case t of
             KName n \<Rightarrow>
               if n = ''None'' then parse_trailers k ENone r
               else if n = ''True'' then parse_trailers k (EBool True) r
               else if n = ''False'' then parse_trailers k (EBool False) r
               else if n \<in> set py_keywords \<or> take 2 n = ''__'' then None
               else parse_trailers k (EName n) r
           | KStr s \<Rightarrow> parse_trailers k (EStr s) r
           | KNum n \<Rightarrow> parse_trailers k (ENum n) r
           | KOp c \<Rightarrow>
               if c = CHR ''['' then
                 (case parse_items k (CHR '']'') r of
                    None \<Rightarrow> None
                  | Some (es, r') \<Rightarrow> parse_trailers k (EList es) r')
               else if c = CHR ''('' then
                 (case parse_expr k r of
                    None \<Rightarrow> None
                  | Some (e, r') \<Rightarrow>
                      if is_op (CHR '')'') r' then parse_trailers k e (tl r') else None)
               else None))"
| "parse_trailers 0 e ts = None"
| "parse_trailers (Suc k) e ts =
     (if is_op (CHR ''('') ts then
        (case parse_items k (CHR '')'') (tl ts) of
           None \<Rightarrow> None
         | Some (args, r') \<Rightarrow> parse_trailers k (ECall e args) r')
      else if is_op (CHR ''['') ts then
        (case parse_expr k (tl ts) of
           None \<Rightarrow> None
         | Some (i, r') \<Rightarrow>
             if is_op (CHR '']'') r' then parse_trailers k (ESub e i) (tl r') else None)
      else if is_op (CHR ''.'') ts then
        (case tl ts of
           KName a # r' \<Rightarrow> parse_trailers k (EAttr e a) r'
         | _ \<Rightarrow> None)
      else Some (e, ts))"
| "parse_items 0 close ts = None"
| "parse_items (Suc k) close ts =
     (if is_op close ts then Some ([], tl ts)
      else (case parse_expr k ts of
              None \<Rightarrow> None
            | Some (e, r) \<Rightarrow>
                if is_op close r then Some ([e], tl r)
                else if is_op (CHR '','') r then
                  (case parse_items k close (tl r) of
                     None \<Rightarrow> None
                   | Some (es, r') \<Rightarrow> Some (e # es, r'))
                else None))"
















subsection \<open>Values and objects\<close>

text \<open>Lists, dictionaries and the frames of function calls live in a heap and are
  referred to by address, so that the sharing of \<^verbatim>\<open>ctx\<close>, \<^verbatim>\<open>local_defs\<close> and
  \<^verbatim>\<open>super_defs\<close> between a template and its parent is kept. A function value holds
  the frame in which it was defined. Dictionary keys are strings.\<close>

datatype pval =
  VNone | VBool bool | VInt int | VStr string | VRef nat
  | VFun string "string list" "stmt list" "nat option"
  | VGlobal string | VBound pval string | VSyntaxError string

datatype obj =
  OList "pval list"
  | ODict "(string \<times> pval) list"
  | OFrame "string list" "(string \<times> pval) list" "nat option"












subsection \<open>Built-in operations\<close>












subsection \<open>Evaluation\<close>



subsection \<open>The engine on the host model\<close>








text \<open>The values of a context, and the world that \<^verbatim>\<open>Template.render\<close> makes of a
  context: the context dictionary and two empty dictionaries.\<close>

datatype cval = CNone | CBool bool | CInt int | CStr string | CList "cval list"

fun alloc :: "cval \<Rightarrow> obj list \<Rightarrow> pval \<times> obj list"
  and alloc_list :: "cval list \<Rightarrow> obj list \<Rightarrow> pval list \<times> obj list" where
  "alloc CNone h = (VNone, h)"
| "alloc (CBool b) h = (VBool b, h)"
| "alloc (CInt i) h = (VInt i, h)"
| "alloc (CStr s) h = (VStr s, h)"
| "alloc (CList cs) h =
     (case alloc_list cs h of (vs, h1) \<Rightarrow> (VRef (length h1), h1 @ [OList vs]))"
| "alloc_list [] h = ([], h)"
| "alloc_list (c # cs) h =
     (case alloc c h of (v, h1) \<Rightarrow> (case alloc_list cs h1 of (vs, h2) \<Rightarrow> (v # vs, h2)))"




section \<open>Rendering literal text\<close>

text \<open>A source is literal text if it has no \<^verbatim>\<open>{{\<close> and no line whose first character
  after blanks is the statement leader \<^verbatim>\<open>%\<close>.\<close>

definition leader_ahead :: "string \<Rightarrow> bool" where
  "leader_ahead s = (case dropWhile is_blank s of [] \<Rightarrow> False | c # r \<Rightarrow> c = CHR ''%'')"




lemma replace_crlf_Nil: "(replace_crlf s = []) = (s = [])"
  by (induction s rule: replace_crlf.induct) simp_all



lemma leader_ahead_Nil: "leader_ahead [] = False"
  by (simp add: leader_ahead_def)














subsection \<open>The host reads back what repr wrote\<close>





























section \<open>Rendering a loop\<close>






section \<open>Template inheritance\<close>







end
